theory Spec2Isabelle
  imports Complex_Main
begin

section \<open>Particle swarm optimisation (pso.py): the embedding\<close>

text \<open>
  The module is Python 2 on numpy. Its floating-point numbers are read as reals, its
  one-dimensional arrays as lists of reals. Three things the source leaves implicit are
  written out:
  \<^item> numpy arrays are mutable objects. A particle's \<open>pos\<close> and \<open>bestPos\<close> and the swarm's
    \<open>globBestPos\<close> hold references, so they are addresses into a store \<open>heap\<close>; the
    in-place operations (\<open>+=\<close>, masked assignment) write to the store. Velocities and the
    bounds are never shared and never written through a second name, so they are values.
  \<^item> \<open>np.random.random\<close> reads a global generator: the stream of its draws is the field
    \<open>rng\<close>, the number of draws taken so far the field \<open>rcur\<close>.
  \<^item> numpy raises on shapes that do not fit: the results are sums \<open>error + 'a\<close>.
  The \<open>print\<close> of \<open>optimize\<close> is left out.
\<close>

datatype error = ValueError | IndexError

subsection \<open>numpy on one-dimensional arrays\<close>

text \<open>
  An elementwise binary operation broadcasts an array of length one and raises ValueError
  on any other pair of different lengths.
\<close>

definition np_bop :: "(real \<Rightarrow> real \<Rightarrow> 'a) \<Rightarrow> real list \<Rightarrow> real list \<Rightarrow> error + 'a list" where
  "np_bop f xs ys =
     (if length xs = length ys then Inr (map2 f xs ys)
      else if length xs = 1 then Inr (map (f (hd xs)) ys)
      else if length ys = 1 then Inr (map (\<lambda>x. f x (hd ys)) xs)
      else Inl ValueError)"

text \<open>\<open>a += b\<close>: the broadcast result has to have the shape of \<open>a\<close>.\<close>

definition np_iadd :: "real list \<Rightarrow> real list \<Rightarrow> error + real list" where
  "np_iadd xs ys =
     (case np_bop (+) xs ys of
        Inl e \<Rightarrow> Inl e
      | Inr zs \<Rightarrow> if length zs = length xs then Inr zs else Inl ValueError)"

text \<open>Scalar times array.\<close>

definition np_scal :: "real \<Rightarrow> real list \<Rightarrow> real list" where
  "np_scal c xs = map (\<lambda>x. c * x) xs"

text \<open>
  \<open>a[idx] = b[idx]\<close> for a boolean mask \<open>idx\<close>: a mask whose length is not the length of
  the array it indexes raises IndexError (numpy 1.13 and later; older versions accept such a
  mask when its true entries are in range). On arrays of one length, which is where the
  properties below are, all versions agree.
\<close>

definition mask_assign :: "real list \<Rightarrow> bool list \<Rightarrow> real list \<Rightarrow> error + real list" where
  "mask_assign a idx b =
     (if length idx = length b \<and> length idx = length a
      then Inr (map (\<lambda>(m, x, y). if m then y else x) (zip idx (zip a b)))
      else Inl IndexError)"

text \<open>
  \<open>np.array(initPos).reshape((-1, dim))\<close>: the elements in row-major order, cut into rows
  of length \<open>dim\<close>. The caller's \<open>initPos\<close> is a rectangular list of rows.
\<close>

definition reshape :: "nat \<Rightarrow> real list list \<Rightarrow> error + real list list" where
  "reshape d rows =
     (let flat = concat rows in
      if d = 0 \<or> length flat mod d \<noteq> 0 then Inl ValueError
      else Inr (map (\<lambda>i. take d (drop (i * d) flat)) [0..<length flat div d]))"

subsection \<open>The objects\<close>

text \<open>
  A \<open>Particle\<close> is born with its dimension only; the other attributes are set by
  \<open>__initPart\<close> before anything reads them.
\<close>

record particle =
  p_dim :: nat
  pos :: nat
  vel :: "real list"
  fitness :: real
  bestFit :: real
  bestPos :: nat

definition Particle :: "nat \<Rightarrow> particle" where
  "Particle d = \<lparr>p_dim = d, pos = 0, vel = [], fitness = 0, bestFit = 0, bestPos = 0\<rparr>"

record pso =
  nPart :: nat
  epsError :: real
  maxGen :: nat
  w :: real
  phiP :: real
  phiG :: real
  problem :: "real list \<Rightarrow> real"
  minBound :: "real list"
  maxBound :: "real list"
  dim :: nat
  initPos :: "real list list option"
  Particles :: "particle list"
  globBestFit :: real
  globBestPos :: nat
  heap :: "nat \<Rightarrow> real list"
  nextAddr :: nat
  rng :: "nat \<Rightarrow> real"
  rcur :: nat

text \<open>\<open>np.random.random(n)\<close> and \<open>np.random.random()\<close>.\<close>

definition random_n :: "nat \<Rightarrow> pso \<Rightarrow> real list \<times> pso" where
  "random_n n s = (map (rng s) [rcur s..<rcur s + n], s\<lparr>rcur := rcur s + n\<rparr>)"

definition random_1 :: "pso \<Rightarrow> real \<times> pso" where
  "random_1 s = (rng s (rcur s), s\<lparr>rcur := rcur s + 1\<rparr>)"

text \<open>A new array object in the store.\<close>

definition alloc :: "real list \<Rightarrow> pso \<Rightarrow> nat \<times> pso" where
  "alloc xs s = (nextAddr s, s\<lparr>heap := (heap s)(nextAddr s := xs), nextAddr := nextAddr s + 1\<rparr>)"

subsection \<open>The constructor\<close>

text \<open>
  \<open>PSO.__init__(func, bounds, initPos, nPart)\<close>. The argument \<open>nPart\<close> is not read. The last
  two arguments of the model are the store's first free address and the generator's
  stream.
\<close>

definition PSO_init ::
  "(real list \<Rightarrow> real) \<Rightarrow> real list \<times> real list \<Rightarrow> real list list option \<Rightarrow> nat \<Rightarrow>
   (nat \<Rightarrow> real) \<Rightarrow> error + pso" where
  "PSO_init func bounds initPos0 nPart0 g =
     (let s = \<lparr>nPart = 100, epsError = 1, maxGen = 500, w = 0.2, phiP = 0.2, phiG = 0.1,
                problem = func, minBound = fst bounds, maxBound = snd bounds,
                dim = length (fst bounds), initPos = None, Particles = [],
                globBestFit = 0, globBestPos = 0, heap = (\<lambda>a. []), nextAddr = 0,
                rng = g, rcur = 0\<rparr>
      in case initPos0 of
           None \<Rightarrow> Inr s
         | Some rows \<Rightarrow>
             (case reshape (dim s) rows of
                Inl e \<Rightarrow> Inl e
              | Inr m \<Rightarrow> Inr (s\<lparr>initPos := Some m\<rparr>)))"

subsection \<open>Initialising the swarm\<close>

text \<open>
  The initial position of one particle (lines 88 to 95). An array compared with \<open>None\<close> is
  not \<open>None\<close> (numpy of the source's time), so an \<open>initPos\<close> with no rows reaches
  \<open>self.initPos[0,:]\<close> and raises IndexError.
\<close>

definition init_pos :: "pso \<Rightarrow> error + (real list \<times> pso)" where
  "init_pos s =
     (case initPos s of
        None \<Rightarrow>
          (let (r, s1) = random_n (dim s) s in
           case np_bop (*) r (maxBound s1) of
             Inl e \<Rightarrow> Inl e
           | Inr a \<Rightarrow>
               (case np_bop (-) a (minBound s1) of
                  Inl e \<Rightarrow> Inl e
                | Inr b \<Rightarrow> Inr (b, s1)))
      | Some rows \<Rightarrow>
          (case rows of
             [] \<Rightarrow> Inl IndexError
           | row # rest \<Rightarrow>
               Inr (row, s\<lparr>initPos := (if length rest = 0 then None else Some rest)\<rparr>)))"

text \<open>The body of the loop of lines 85 to 104, for one particle.\<close>

definition init_part :: "pso \<Rightarrow> particle \<Rightarrow> error + (pso \<times> particle)" where
  "init_part s p =
     (case init_pos s of
        Inl e \<Rightarrow> Inl e
      | Inr (x, s1) \<Rightarrow>
          (let (a, s2) = alloc x s1;
               (r, s3) = random_n (dim s2) s2
           in case np_bop (-) (maxBound s3) (minBound s3) of
                Inl e \<Rightarrow> Inl e
              | Inr d \<Rightarrow>
                  (case np_bop (*) r d of
                     Inl e \<Rightarrow> Inl e
                   | Inr v \<Rightarrow>
                       (let (u, s4) = random_1 s3;
                            v' = np_scal (if u > 0.5 then 1 else - 1) v;
                            fit = problem s4 (heap s4 a)
                        in Inr (s4, p\<lparr>pos := a, vel := v', fitness := fit,
                                      bestFit := fit, bestPos := a\<rparr>)))))"

fun init_parts :: "pso \<Rightarrow> particle list \<Rightarrow> error + (pso \<times> particle list)" where
  "init_parts s [] = Inr (s, [])"
| "init_parts s (p # ps) =
     (case init_part s p of
        Inl e \<Rightarrow> Inl e
      | Inr (s1, p1) \<Rightarrow>
          (case init_parts s1 ps of
             Inl e \<Rightarrow> Inl e
           | Inr (s2, ps1) \<Rightarrow> Inr (s2, p1 # ps1)))"

text \<open>One step of the scan for the global best (lines 110 to 112 and 149 to 151).\<close>

definition glob_best :: "pso \<Rightarrow> particle \<Rightarrow> pso" where
  "glob_best s p =
     (if fitness p < globBestFit s
      then s\<lparr>globBestFit := fitness p, globBestPos := pos p\<rparr>
      else s)"

text \<open>\<open>PSO.__initPart\<close>. \<open>self.Particles[0]\<close> raises IndexError on an empty swarm.\<close>

definition initPart :: "pso \<Rightarrow> error + pso" where
  "initPart s =
     (case init_parts s (map (\<lambda>i. Particle (dim s)) [0..<nPart s]) of
        Inl e \<Rightarrow> Inl e
      | Inr (s1, ps) \<Rightarrow>
          (case ps of
             [] \<Rightarrow> Inl IndexError
           | p0 # _ \<Rightarrow>
               Inr (foldl glob_best
                      (s1\<lparr>Particles := ps, globBestFit := fitness p0, globBestPos := pos p0\<rparr>)
                      ps)))"

subsection \<open>One generation\<close>

text \<open>Lines 131 to 136 on the array at address \<open>a\<close>: the lower bounds, then the upper.\<close>

definition clamp_lower :: "pso \<Rightarrow> nat \<Rightarrow> error + pso" where
  "clamp_lower s a =
     (case np_bop (<) (heap s a) (minBound s) of
        Inl e \<Rightarrow> Inl e
      | Inr idx \<Rightarrow>
          if list_ex (\<lambda>b. b) idx
          then (case mask_assign (heap s a) idx (minBound s) of
                  Inl e \<Rightarrow> Inl e
                | Inr x \<Rightarrow> Inr (s\<lparr>heap := (heap s)(a := x)\<rparr>))
          else Inr s)"

definition clamp_upper :: "pso \<Rightarrow> nat \<Rightarrow> error + pso" where
  "clamp_upper s a =
     (case np_bop (>) (heap s a) (maxBound s) of
        Inl e \<Rightarrow> Inl e
      | Inr idx \<Rightarrow>
          if list_ex (\<lambda>b. b) idx
          then (case mask_assign (heap s a) idx (maxBound s) of
                  Inl e \<Rightarrow> Inl e
                | Inr x \<Rightarrow> Inr (s\<lparr>heap := (heap s)(a := x)\<rparr>))
          else Inr s)"

text \<open>The new velocity of line 125, from the arrays as they are when the line runs.\<close>

definition new_vel :: "pso \<Rightarrow> particle \<Rightarrow> real \<Rightarrow> real \<Rightarrow> error + real list" where
  "new_vel s p rP rG =
     (case np_bop (-) (heap s (bestPos p)) (heap s (pos p)) of
        Inl e \<Rightarrow> Inl e
      | Inr dP \<Rightarrow>
          (case np_bop (+) (np_scal (w s) (vel p)) (np_scal (phiP s * rP) dP) of
             Inl e \<Rightarrow> Inl e
           | Inr t \<Rightarrow>
               (case np_bop (-) (heap s (globBestPos s)) (heap s (pos p)) of
                  Inl e \<Rightarrow> Inl e
                | Inr dG \<Rightarrow> np_bop (+) t (np_scal (phiG s * rG) dG))))"

text \<open>The body of the first loop of \<open>update\<close> (lines 119 to 139), for one particle.\<close>

definition update_part :: "pso \<Rightarrow> particle \<Rightarrow> error + (pso \<times> particle)" where
  "update_part s p =
     (let (r, s1) = random_n 2 s in
      case new_vel s1 p (r ! 0) (r ! 1) of
        Inl e \<Rightarrow> Inl e
      | Inr v' \<Rightarrow>
          (case np_iadd (heap s1 (pos p)) v' of
             Inl e \<Rightarrow> Inl e
           | Inr x \<Rightarrow>
               (case clamp_lower (s1\<lparr>heap := (heap s1)(pos p := x)\<rparr>) (pos p) of
                  Inl e \<Rightarrow> Inl e
                | Inr s2 \<Rightarrow>
                    (case clamp_upper s2 (pos p) of
                       Inl e \<Rightarrow> Inl e
                     | Inr s3 \<Rightarrow>
                         Inr (s3, p\<lparr>vel := v',
                                    fitness := problem s3 (heap s3 (pos p))\<rparr>)))))"

fun update_parts :: "pso \<Rightarrow> particle list \<Rightarrow> error + (pso \<times> particle list)" where
  "update_parts s [] = Inr (s, [])"
| "update_parts s (p # ps) =
     (case update_part s p of
        Inl e \<Rightarrow> Inl e
      | Inr (s1, p1) \<Rightarrow>
          (case update_parts s1 ps of
             Inl e \<Rightarrow> Inl e
           | Inr (s2, ps1) \<Rightarrow> Inr (s2, p1 # ps1)))"

text \<open>The second loop of \<open>update\<close> (lines 142 to 151).\<close>

definition local_best :: "particle \<Rightarrow> particle" where
  "local_best p = (if fitness p < bestFit p then p\<lparr>bestFit := fitness p\<rparr> else p)"

fun best_parts :: "pso \<Rightarrow> particle list \<Rightarrow> pso \<times> particle list" where
  "best_parts s [] = (s, [])"
| "best_parts s (p # ps) =
     (let p1 = local_best p;
          s1 = glob_best s p1;
          (s2, ps1) = best_parts s1 ps
      in (s2, p1 # ps1))"

text \<open>\<open>PSO.update\<close>. The particles are changed in place, so the list is the same list.\<close>

definition update :: "pso \<Rightarrow> error + pso" where
  "update s =
     (case update_parts s (Particles s) of
        Inl e \<Rightarrow> Inl e
      | Inr (s1, ps1) \<Rightarrow>
          (let (s2, ps2) = best_parts s1 ps1 in Inr (s2\<lparr>Particles := ps2\<rparr>)))"

subsection \<open>The driver\<close>

text \<open>\<open>PSO.finished\<close>: the array that \<open>globBestPos\<close> refers to, and the best fitness.\<close>

definition finished :: "pso \<Rightarrow> real list \<times> real" where
  "finished s = (heap s (globBestPos s), globBestFit s)"

text \<open>The \<open>while\<close> loop of \<open>optimize\<close> (lines 167 to 182), from the counter \<open>idx\<close>.\<close>

function optimize_loop :: "nat \<Rightarrow> pso \<Rightarrow> error + pso" where
  "optimize_loop idx s =
     (if idx < maxGen s
      then (case update s of
              Inl e \<Rightarrow> Inl e
            | Inr s1 \<Rightarrow>
                if globBestFit s1 < epsError s1 then Inr s1
                else optimize_loop (idx + 1) s1)
      else Inr s)"
  by pat_completeness auto

text \<open>\<open>PSO.optimize\<close>.\<close>

definition optimize :: "pso \<Rightarrow> error + (real list \<times> real)" where
  "optimize s =
     (case initPart s of
        Inl e \<Rightarrow> Inl e
      | Inr s0 \<Rightarrow>
          (case optimize_loop 0 s0 of
             Inl e \<Rightarrow> Inl e
           | Inr s1 \<Rightarrow> Inr (finished s1)))"

section \<open>Notions for the properties\<close>

text \<open>
  None of these is part of the program: they name what the properties below are about.
\<close>

subsection \<open>States\<close>

text \<open>
  The fields that are set by the constructor and by nobody else, and the generator's
  stream. \<open>update\<close> does not assign any of them, which is what makes the loop of
  \<open>optimize\<close> count up to a fixed \<open>maxGen\<close>.
\<close>

definition same_config :: "pso \<Rightarrow> pso \<Rightarrow> bool" where
  "same_config s s' =
     (nPart s' = nPart s \<and> epsError s' = epsError s \<and> maxGen s' = maxGen s \<and>
      w s' = w s \<and> phiP s' = phiP s \<and> phiG s' = phiG s \<and> problem s' = problem s \<and>
      minBound s' = minBound s \<and> maxBound s' = maxBound s \<and> dim s' = dim s \<and>
      rng s' = rng s)"

text \<open>
  The bounds have the length \<open>dim\<close> and so has every row of \<open>initPos\<close>. The constructor
  gives this whenever the two bounds have the same length.
\<close>

definition bounds_ok :: "pso \<Rightarrow> bool" where
  "bounds_ok s =
     (length (minBound s) = dim s \<and> length (maxBound s) = dim s \<and>
      (case initPos s of None \<Rightarrow> True | Some rows \<Rightarrow> list_all (\<lambda>r. length r = dim s) rows))"

text \<open>
  A swarm as \<open>__initPart\<close> leaves it and as \<open>update\<close> keeps it: bounds, velocities and
  position arrays of length \<open>dim\<close>; every particle's \<open>bestPos\<close> the same array as its
  \<open>pos\<close>; no array shared by two particles; \<open>globBestPos\<close> the position array of one of
  the particles.
\<close>

definition swarm_inv :: "pso \<Rightarrow> bool" where
  "swarm_inv s =
     (length (minBound s) = dim s \<and> length (maxBound s) = dim s \<and>
      list_all (\<lambda>p. bestPos p = pos p \<and> length (vel p) = dim s \<and>
                    length (heap s (pos p)) = dim s) (Particles s) \<and>
      distinct (map pos (Particles s)) \<and>
      globBestPos s \<in> set (map pos (Particles s)))"

text \<open>
  What lines 131 to 136 do to one coordinate \<open>y\<close> with the bounds \<open>lo\<close> and \<open>hi\<close>: the
  lower bound first, then the upper.
\<close>

definition clamp1 :: "real \<Rightarrow> real \<Rightarrow> real \<Rightarrow> real" where
  "clamp1 lo hi y = (let y1 = (if y < lo then lo else y) in if y1 > hi then hi else y1)"

text \<open>
  What one particle's step needs, of the particle and of the swarm: arrays of length
  \<open>dim\<close>. Whether \<open>bestPos\<close> is the array of \<open>pos\<close> or another one does not matter to it.
\<close>

definition part_ok :: "pso \<Rightarrow> particle \<Rightarrow> bool" where
  "part_ok s p =
     (length (vel p) = dim s \<and> length (heap s (pos p)) = dim s \<and>
      length (heap s (bestPos p)) = dim s)"

definition shape_ok :: "pso \<Rightarrow> bool" where
  "shape_ok s =
     (length (minBound s) = dim s \<and> length (maxBound s) = dim s \<and>
      length (heap s (globBestPos s)) = dim s)"

text \<open>
  The same without the aliasing: arrays of length \<open>dim\<close> and no position array shared by
  two particles. Every swarm that \<open>__initPart\<close> or \<open>update\<close> leaves is of this kind, and so
  is one that keeps each best position in an array of its own.
\<close>

definition swarm_shape :: "pso \<Rightarrow> bool" where
  "swarm_shape s =
     (shape_ok s \<and> list_all (part_ok s) (Particles s) \<and> distinct (map pos (Particles s)))"

subsection \<open>Runs and concrete inputs\<close>

text \<open>\<open>k\<close> calls of \<open>update()\<close> in a row; the first error ends the run.\<close>

fun updates :: "nat \<Rightarrow> pso \<Rightarrow> error + pso" where
  "updates 0 s = Inr s"
| "updates (Suc k) s = (case update s of Inl e \<Rightarrow> Inl e | Inr s1 \<Rightarrow> updates k s1)"

text \<open>
  Concrete inputs: two objectives on one dimension, and a generator whose every draw is 3/4.
\<close>

definition zero_fn :: "real list \<Rightarrow> real" where
  "zero_fn x = 0"

definition square_fn :: "real list \<Rightarrow> real" where
  "square_fn x = (x ! 0)\<^sup>2"

definition draws :: "nat \<Rightarrow> real" where
  "draws n = 3 / 4"



section \<open>Properties of the steps\<close>

subsection \<open>What a generation leaves alone\<close>

lemma same_config_refl: "same_config s s"
  by (simp add: same_config_def)

lemma same_config_trans: "same_config s s1 \<Longrightarrow> same_config s1 s2 \<Longrightarrow> same_config s s2"
  by (simp add: same_config_def)

lemma update_part_frame:
  "update_part s p = Inr (s', p') \<Longrightarrow>
     same_config s s' \<and> rcur s' = rcur s + 2 \<and> globBestFit s' = globBestFit s \<and>
     globBestPos s' = globBestPos s \<and>
     pos p' = pos p \<and> bestPos p' = bestPos p \<and> bestFit p' = bestFit p"
  by (auto simp: update_part_def random_n_def clamp_lower_def clamp_upper_def same_config_def
      split: sum.splits if_splits)

lemma update_parts_frame:
  "update_parts s ps = Inr (s', ps') \<Longrightarrow>
     same_config s s' \<and> rcur s' = rcur s + 2 * length ps \<and> globBestFit s' = globBestFit s \<and>
     globBestPos s' = globBestPos s \<and>
     length ps' = length ps \<and> map pos ps' = map pos ps \<and>
     map bestPos ps' = map bestPos ps \<and> map bestFit ps' = map bestFit ps"
proof (induction ps arbitrary: s s' ps')
  case Nil
  then show ?case by (simp add: same_config_refl)
next
  case (Cons p ps)
  from Cons.prems obtain s1 p1 ps1 where
    a: "update_part s p = Inr (s1, p1)" and b: "update_parts s1 ps = Inr (s', ps1)"
    and c: "ps' = p1 # ps1"
    by (auto split: sum.splits)
  from update_part_frame[OF a] Cons.IH[OF b] c show ?case
    by (auto intro: same_config_trans)
qed

lemma glob_best_frame:
  "same_config s (glob_best s p) \<and> rcur (glob_best s p) = rcur s \<and>
   heap (glob_best s p) = heap s \<and> Particles (glob_best s p) = Particles s"
  by (simp add: glob_best_def same_config_def)

lemma best_parts_frame:
  "best_parts s ps = (s', ps') \<Longrightarrow>
     same_config s s' \<and> rcur s' = rcur s \<and> heap s' = heap s \<and> ps' = map local_best ps"
proof (induction ps arbitrary: s s' ps')
  case Nil
  then show ?case by (simp add: same_config_refl)
next
  case (Cons p ps)
  obtain s2 ps1 where b: "best_parts (glob_best s (local_best p)) ps = (s2, ps1)"
    by (cases "best_parts (glob_best s (local_best p)) ps")
  with Cons.prems have c: "s' = s2" "ps' = local_best p # ps1" by (simp_all add: Let_def)
  from glob_best_frame[of s "local_best p"] Cons.IH[OF b] c show ?case
    by (auto intro: same_config_trans)
qed

lemma update_frame:
  "update s = Inr s' \<Longrightarrow>
     same_config s s' \<and> rcur s' = rcur s + 2 * length (Particles s)"
proof -
  assume u: "update s = Inr s'"
  then obtain s1 ps1 s2 ps2 where
    a: "update_parts s (Particles s) = Inr (s1, ps1)" and
    b: "best_parts s1 ps1 = (s2, ps2)" and c: "s' = s2\<lparr>Particles := ps2\<rparr>"
    by (auto simp: update_def split: sum.splits prod.splits)
  have "same_config s2 s'" "rcur s' = rcur s2" using c by (simp_all add: same_config_def)
  with update_parts_frame[OF a] best_parts_frame[OF b] show ?thesis
    by (auto intro: same_config_trans)
qed

lemma update_maxGen: "update s = Inr s' \<Longrightarrow> maxGen s' = maxGen s"
  by (drule update_frame) (simp add: same_config_def)

text \<open>The loop of \<open>optimize\<close> ends: \<open>update\<close> leaves \<open>maxGen\<close> alone and \<open>idx\<close> grows.\<close>

termination optimize_loop
  by (relation "measure (\<lambda>(idx, s). maxGen s - idx)") (auto dest: update_maxGen)

declare optimize_loop.simps [simp del]

subsection \<open>Initialisation\<close>

lemma np_bop_same: "length xs = length ys \<Longrightarrow> np_bop f xs ys = Inr (map2 f xs ys)"
  by (simp add: np_bop_def)

lemma init_pos_props:
  assumes "init_pos s = Inr (x, s1)"
  shows "same_config s s1" "heap s1 = heap s" "nextAddr s1 = nextAddr s"
    "bounds_ok s \<Longrightarrow> length x = dim s \<and> bounds_ok s1"
  using assms
  by (auto simp: init_pos_def random_n_def same_config_def bounds_ok_def np_bop_same
      split: option.splits list.splits sum.splits if_splits)

lemma init_part_props:
  assumes "init_part s p = Inr (s', p')"
  shows "same_config s s'" "nextAddr s' = Suc (nextAddr s)" "pos p' = nextAddr s"
    "bestPos p' = nextAddr s" "a \<noteq> nextAddr s \<Longrightarrow> heap s' a = heap s a"
    "fitness p' = problem s (heap s' (pos p'))" "bestFit p' = fitness p'"
    "bounds_ok s \<Longrightarrow> bounds_ok s' \<and> length (vel p') = dim s \<and> length (heap s' (pos p')) = dim s"
proof -
  from assms obtain x s1 where ip: "init_pos s = Inr (x, s1)"
    by (auto simp: init_part_def split: sum.splits)
  note q = init_pos_props[OF ip]
  from assms ip q(1-3) show "same_config s s'" "nextAddr s' = Suc (nextAddr s)"
    "pos p' = nextAddr s" "bestPos p' = nextAddr s"
    "fitness p' = problem s (heap s' (pos p'))" "bestFit p' = fitness p'"
    by (auto simp: init_part_def alloc_def random_n_def random_1_def same_config_def Let_def
        split: sum.splits)
  from assms ip q(1-3) show "a \<noteq> nextAddr s \<Longrightarrow> heap s' a = heap s a"
    by (auto simp: init_part_def alloc_def random_n_def random_1_def same_config_def Let_def
        split: sum.splits)
  assume b: "bounds_ok s"
  from q(4)[OF b] have lx: "length x = dim s" and b1: "bounds_ok s1" by simp_all
  from assms ip q(1-3) lx b1
  show "bounds_ok s' \<and> length (vel p') = dim s \<and> length (heap s' (pos p')) = dim s"
    by (auto simp: init_part_def alloc_def random_n_def random_1_def same_config_def Let_def
        bounds_ok_def np_bop_same np_scal_def split: sum.splits option.splits)
qed

lemma init_parts_props:
  "init_parts s ps = Inr (s', ps') \<Longrightarrow>
     same_config s s' \<and> length ps' = length ps \<and>
     nextAddr s' = nextAddr s + length ps \<and>
     map pos ps' = [nextAddr s..<nextAddr s + length ps] \<and>
     (\<forall>a. a < nextAddr s \<longrightarrow> heap s' a = heap s a) \<and>
     list_all (\<lambda>p. bestPos p = pos p \<and> bestFit p = fitness p \<and>
                  fitness p = problem s (heap s' (pos p))) ps' \<and>
     (bounds_ok s \<longrightarrow> bounds_ok s' \<and>
        list_all (\<lambda>p. length (vel p) = dim s \<and> length (heap s' (pos p)) = dim s) ps')"
proof (induction ps arbitrary: s s' ps')
  case Nil
  then show ?case by (simp add: same_config_refl)
next
  case (Cons p ps)
  from Cons.prems obtain s1 p1 ps1 where
    a: "init_part s p = Inr (s1, p1)" and b: "init_parts s1 ps = Inr (s', ps1)"
    and c: "ps' = p1 # ps1"
    by (auto split: sum.splits)
  note A = init_part_props[OF a]
  note B = Cons.IH[OF b]
  have cfg: "same_config s s'" using A(1) B by (blast intro: same_config_trans)
  have d1: "dim s1 = dim s" "problem s1 = problem s" using A(1) by (simp_all add: same_config_def)
  have na: "nextAddr s' = nextAddr s + length (p # ps)" using A(2) B by simp
  have mp: "map pos ps' = [nextAddr s..<nextAddr s + length (p # ps)]"
    using A(2,3) B c by (simp add: upt_rec)
  have hp: "\<forall>a. a < nextAddr s \<longrightarrow> heap s' a = heap s a"
    using A(2,5) B by simp
  have h1: "heap s' (pos p1) = heap s1 (pos p1)" using A(2,3) B by simp
  have la: "list_all (\<lambda>p. bestPos p = pos p \<and> bestFit p = fitness p \<and>
                  fitness p = problem s (heap s' (pos p))) ps'"
    using A(3,4,6,7) B c h1 d1 by simp
  have lb: "bounds_ok s \<longrightarrow> bounds_ok s' \<and>
        list_all (\<lambda>p. length (vel p) = dim s \<and> length (heap s' (pos p)) = dim s) ps'"
    using A(8) B c h1 d1 by simp
  from cfg na mp hp la lb B c show ?case by simp
qed

lemma foldl_glob_best_props:
  "same_config s (foldl glob_best s ps) \<and> heap (foldl glob_best s ps) = heap s \<and>
   Particles (foldl glob_best s ps) = Particles s \<and> rcur (foldl glob_best s ps) = rcur s \<and>
   globBestPos (foldl glob_best s ps) \<in> insert (globBestPos s) (set (map pos ps)) \<and>
   globBestFit (foldl glob_best s ps) \<le> globBestFit s"
proof (induction ps arbitrary: s)
  case Nil
  then show ?case by (simp add: same_config_refl)
next
  case (Cons p ps)
  have g: "same_config s (glob_best s p)" "heap (glob_best s p) = heap s"
    "Particles (glob_best s p) = Particles s" "rcur (glob_best s p) = rcur s"
    "globBestPos (glob_best s p) \<in> {globBestPos s, pos p}"
    "globBestFit (glob_best s p) \<le> globBestFit s"
    by (simp_all add: glob_best_def same_config_def)
  from Cons.IH[of "glob_best s p"] g show ?case
    by (auto intro: same_config_trans)
qed

lemma initPart_props:
  assumes "initPart s = Inr s0"
  shows "same_config s s0" "length (Particles s0) = nPart s"
    "list_all (\<lambda>p. bestPos p = pos p \<and> bestFit p = fitness p \<and>
                  fitness p = problem s (heap s0 (pos p))) (Particles s0)"
    "distinct (map pos (Particles s0))"
    "globBestPos s0 \<in> set (map pos (Particles s0))"
    "bounds_ok s \<Longrightarrow> swarm_inv s0"
proof -
  let ?ps0 = "map (\<lambda>i. Particle (dim s)) [0..<nPart s]"
  from assms obtain s1 p0 ps where
    a: "init_parts s ?ps0 = Inr (s1, p0 # ps)" and
    b: "s0 = foldl glob_best
          (s1\<lparr>Particles := p0 # ps, globBestFit := fitness p0, globBestPos := pos p0\<rparr>)
          (p0 # ps)"
    by (auto simp: initPart_def split: sum.splits list.splits)
  let ?s2 = "s1\<lparr>Particles := p0 # ps, globBestFit := fitness p0, globBestPos := pos p0\<rparr>"
  note A = init_parts_props[OF a]
  note F = foldl_glob_best_props[of ?s2 "p0 # ps"]
  have c2: "same_config s1 ?s2" by (simp add: same_config_def)
  have P: "Particles s0 = p0 # ps" and H: "heap s0 = heap s1" using F b by simp_all
  show cfg: "same_config s s0" using A c2 F b by (blast intro: same_config_trans)
  show "length (Particles s0) = nPart s" using A P by simp
  show "list_all (\<lambda>p. bestPos p = pos p \<and> bestFit p = fitness p \<and>
                  fitness p = problem s (heap s0 (pos p))) (Particles s0)"
    using A P H by simp
  have mp: "map pos (p0 # ps) = [nextAddr s..<nextAddr s + length ?ps0]" using A by simp
  show d: "distinct (map pos (Particles s0))" unfolding P mp by simp
  show g: "globBestPos s0 \<in> set (map pos (Particles s0))" using F b P by auto
  assume bo: "bounds_ok s"
  have "dim s0 = dim s" "minBound s0 = minBound s" "maxBound s0 = maxBound s"
    using cfg by (simp_all add: same_config_def)
  moreover have "list_all (\<lambda>p. bestPos p = pos p \<and> length (vel p) = dim s \<and>
                    length (heap s0 (pos p)) = dim s) (Particles s0)"
    using A bo P H by (simp add: list_all_iff)
  ultimately show "swarm_inv s0" using d g bo by (simp add: swarm_inv_def bounds_ok_def)
qed

lemma reshape_rows:
  assumes "reshape d rows = Inr m"
  shows "list_all (\<lambda>r. length r = d) m"
proof -
  let ?n = "length (concat rows)"
  from assms have d: "0 < d" and
    m: "m = map (\<lambda>i. take d (drop (i * d) (concat rows))) [0..<?n div d]"
    by (auto simp: reshape_def Let_def split: if_splits)
  have "d \<le> ?n - x * d" if "x < ?n div d" for x
  proof -
    from that have "Suc x * d \<le> (?n div d) * d" by (intro mult_le_mono1) simp
    also have "\<dots> \<le> ?n" by simp
    finally show ?thesis by simp
  qed
  then show ?thesis unfolding m by (simp add: list_all_iff)
qed

lemma PSO_init_bounds_ok:
  assumes "PSO_init func (lo, hi) ip k g = Inr s" and "length lo = length hi"
  shows "bounds_ok s"
proof (cases ip)
  case None
  with assms show ?thesis by (auto simp: PSO_init_def bounds_ok_def)
next
  case (Some rows)
  with assms obtain m where r: "reshape (length lo) rows = Inr m"
    by (auto simp: PSO_init_def Let_def split: sum.splits)
  from reshape_rows[OF r] assms Some r show ?thesis
    by (auto simp: PSO_init_def bounds_ok_def Let_def)
qed

subsection \<open>One particle of one generation\<close>

lemma mask_assign_cmp:
  assumes "length x = length b"
  shows "(if list_ex (\<lambda>m. m) (map2 f x b)
          then map (\<lambda>(m, x, y). if m then y else x) (zip (map2 f x b) (zip x b))
          else x) = map2 (\<lambda>x y. if f x y then y else x) x b"
proof (rule nth_equalityI)
  show "length (if list_ex (\<lambda>m. m) (map2 f x b)
          then map (\<lambda>(m, x, y). if m then y else x) (zip (map2 f x b) (zip x b))
          else x) = length (map2 (\<lambda>x y. if f x y then y else x) x b)"
    using assms by simp
next
  fix i assume "i < length (if list_ex (\<lambda>m. m) (map2 f x b)
          then map (\<lambda>(m, x, y). if m then y else x) (zip (map2 f x b) (zip x b))
          else x)"
  then have i: "i < length x" using assms by (simp split: if_splits)
  show "(if list_ex (\<lambda>m. m) (map2 f x b)
          then map (\<lambda>(m, x, y). if m then y else x) (zip (map2 f x b) (zip x b))
          else x) ! i = map2 (\<lambda>x y. if f x y then y else x) x b ! i"
  proof (cases "list_ex (\<lambda>m. m) (map2 f x b)")
    case True
    then show ?thesis using i assms by simp
  next
    case False
    then have "\<not> f (x ! i) (b ! i)"
      using i assms by (force simp: list_ex_iff set_zip)
    then show ?thesis using False i assms by simp
  qed
qed

lemma clamp_lower_eq:
  assumes "length (heap s a) = length (minBound s)"
  shows "clamp_lower s a =
     Inr (s\<lparr>heap := (heap s)(a := map2 (\<lambda>x l. if x < l then l else x) (heap s a) (minBound s))\<rparr>)"
proof -
  have "clamp_lower s a = Inr (s\<lparr>heap := (heap s)(a :=
      (if list_ex (\<lambda>m. m) (map2 (<) (heap s a) (minBound s))
       then map (\<lambda>(m, x, y). if m then y else x)
              (zip (map2 (<) (heap s a) (minBound s)) (zip (heap s a) (minBound s)))
       else heap s a))\<rparr>)"
    using assms by (simp add: clamp_lower_def np_bop_same mask_assign_def)
  then show ?thesis by (simp only: mask_assign_cmp[OF assms])
qed

lemma clamp_upper_eq:
  assumes "length (heap s a) = length (maxBound s)"
  shows "clamp_upper s a =
     Inr (s\<lparr>heap := (heap s)(a := map2 (\<lambda>x u. if x > u then u else x) (heap s a) (maxBound s))\<rparr>)"
proof -
  have "clamp_upper s a = Inr (s\<lparr>heap := (heap s)(a :=
      (if list_ex (\<lambda>m. m) (map2 (>) (heap s a) (maxBound s))
       then map (\<lambda>(m, x, y). if m then y else x)
              (zip (map2 (>) (heap s a) (maxBound s)) (zip (heap s a) (maxBound s)))
       else heap s a))\<rparr>)"
    using assms by (simp add: clamp_upper_def np_bop_same mask_assign_def)
  then show ?thesis by (simp only: mask_assign_cmp[OF assms])
qed

lemma new_vel_good:
  assumes "shape_ok s" and "part_ok s p"
  shows "\<exists>v. new_vel s p rP rG = Inr v \<and> length v = dim s \<and>
     (\<forall>i<dim s. v ! i = w s * vel p ! i
         + phiP s * rP * (heap s (bestPos p) ! i - heap s (pos p) ! i)
         + phiG s * rG * (heap s (globBestPos s) ! i - heap s (pos p) ! i))"
  using assms
  by (simp add: new_vel_def np_bop_same np_scal_def shape_ok_def part_ok_def)

lemma update_part_good:
  assumes "shape_ok s" and "part_ok s p"
  shows "\<exists>v x. update_part s p =
        Inr (s\<lparr>rcur := rcur s + 2, heap := (heap s)(pos p := x)\<rparr>,
             p\<lparr>vel := v, fitness := problem s x\<rparr>) \<and>
     length v = dim s \<and> length x = dim s \<and>
     (\<forall>i<dim s. v ! i = w s * vel p ! i
         + phiP s * rng s (rcur s) * (heap s (bestPos p) ! i - heap s (pos p) ! i)
         + phiG s * rng s (rcur s + 1) * (heap s (globBestPos s) ! i - heap s (pos p) ! i)) \<and>
     (\<forall>i<dim s. x ! i =
         clamp1 (minBound s ! i) (maxBound s ! i) (heap s (pos p) ! i + v ! i))"
proof -
  let ?s1 = "s\<lparr>rcur := rcur s + 2\<rparr>"
  have so: "shape_ok ?s1" and po: "part_ok ?s1 p"
    using assms by (simp_all add: shape_ok_def part_ok_def)
  from new_vel_good[OF so po, of "rng s (rcur s)" "rng s (rcur s + 1)"]
  obtain v where nv: "new_vel ?s1 p (rng s (rcur s)) (rng s (rcur s + 1)) = Inr v"
    and lv: "length v = dim s"
    and ev: "\<forall>i<dim s. v ! i = w s * vel p ! i
         + phiP s * rng s (rcur s) * (heap s (bestPos p) ! i - heap s (pos p) ! i)
         + phiG s * rng s (rcur s + 1) * (heap s (globBestPos s) ! i - heap s (pos p) ! i)"
    by auto
  have lp: "length (heap s (pos p)) = dim s" and lb: "length (minBound s) = dim s"
    "length (maxBound s) = dim s"
    using assms by (simp_all add: shape_ok_def part_ok_def)
  define x0 where "x0 = map2 (+) (heap s (pos p)) v"
  define x1 where "x1 = map2 (\<lambda>x l. if x < l then l else x) x0 (minBound s)"
  define x2 where "x2 = map2 (\<lambda>x u. if x > u then u else x) x1 (maxBound s)"
  have l0: "length x0 = dim s" and l1: "length x1 = dim s" and l2: "length x2 = dim s"
    using lp lv lb by (simp_all add: x0_def x1_def x2_def)
  have ia: "np_iadd (heap s (pos p)) v = Inr x0"
    using lp lv by (simp add: np_iadd_def np_bop_same x0_def)
  let ?s2 = "?s1\<lparr>heap := (heap ?s1)(pos p := x0)\<rparr>"
  have cl: "clamp_lower ?s2 (pos p) = Inr (?s2\<lparr>heap := (heap ?s2)(pos p := x1)\<rparr>)"
    using clamp_lower_eq[of ?s2 "pos p"] l0 lb by (simp add: x1_def)
  let ?s3 = "?s2\<lparr>heap := (heap ?s2)(pos p := x1)\<rparr>"
  have cu: "clamp_upper ?s3 (pos p) = Inr (?s3\<lparr>heap := (heap ?s3)(pos p := x2)\<rparr>)"
    using clamp_upper_eq[of ?s3 "pos p"] l1 lb by (simp add: x2_def)
  have r: "random_n 2 s = ([rng s (rcur s), rng s (rcur s + 1)], ?s1)"
    by (simp add: random_n_def upt_rec)
  have u: "update_part s p =
        Inr (s\<lparr>rcur := rcur s + 2, heap := (heap s)(pos p := x2)\<rparr>,
             p\<lparr>vel := v, fitness := problem s x2\<rparr>)"
    unfolding update_part_def r using nv ia cl cu by simp
  have ex: "\<forall>i<dim s. x2 ! i =
         clamp1 (minBound s ! i) (maxBound s ! i) (heap s (pos p) ! i + v ! i)"
    using lp lv lb by (simp add: x2_def x1_def x0_def clamp1_def Let_def)
  from u lv l2 ev ex show ?thesis by blast
qed

lemma update_part_heap_frame:
  "update_part s p = Inr (s', p') \<Longrightarrow> a \<noteq> pos p \<Longrightarrow> heap s' a = heap s a"
  by (auto simp: update_part_def random_n_def clamp_lower_def clamp_upper_def
      split: sum.splits if_splits)

lemma update_parts_heap_frame:
  "update_parts s ps = Inr (s', ps') \<Longrightarrow> a \<notin> set (map pos ps) \<Longrightarrow> heap s' a = heap s a"
proof (induction ps arbitrary: s s' ps')
  case Nil
  then show ?case by simp
next
  case (Cons p ps)
  from Cons.prems(1) obtain s1 p1 ps1 where
    a: "update_part s p = Inr (s1, p1)" and b: "update_parts s1 ps = Inr (s', ps1)"
    by (auto split: sum.splits)
  from Cons.prems(2) have "a \<noteq> pos p" "a \<notin> set (map pos ps)" by simp_all
  with update_part_heap_frame[OF a] Cons.IH[OF b] show ?case by simp
qed

lemma update_part_keeps:
  assumes "shape_ok s" and "part_ok s p" and "update_part s p = Inr (s', p')"
  shows "shape_ok s'" and "part_ok s' p'" and "part_ok s q \<Longrightarrow> part_ok s' q"
proof -
  from update_part_good[OF assms(1,2)] assms(3) obtain v x where
    s': "s' = s\<lparr>rcur := rcur s + 2, heap := (heap s)(pos p := x)\<rparr>" and
    p': "p' = p\<lparr>vel := v, fitness := problem s x\<rparr>" and
    l: "length v = dim s" "length x = dim s"
    by auto
  show "shape_ok s'" using assms(1) l by (simp add: s' shape_ok_def)
  show "part_ok s' p'" using assms(2) l by (simp add: s' p' part_ok_def)
  show "part_ok s q \<Longrightarrow> part_ok s' q" using l by (simp add: s' part_ok_def)
qed

lemma update_parts_good:
  assumes "shape_ok s" and "list_all (part_ok s) ps"
  shows "\<exists>s' ps'. update_parts s ps = Inr (s', ps') \<and> shape_ok s' \<and>
           list_all (part_ok s') ps' \<and> (\<forall>q. part_ok s q \<longrightarrow> part_ok s' q)"
  using assms
proof (induction ps arbitrary: s)
  case Nil
  then show ?case by simp
next
  case (Cons p ps)
  from Cons.prems have po: "part_ok s p" and ps: "list_all (part_ok s) ps" by simp_all
  from update_part_good[OF Cons.prems(1) po] obtain s1 p1 where
    a: "update_part s p = Inr (s1, p1)" by blast
  note K = update_part_keeps[OF Cons.prems(1) po a]
  have "list_all (part_ok s1) ps" using ps K(3) by (simp add: list_all_iff)
  from Cons.IH[OF K(1) this] obtain s' ps' where
    b: "update_parts s1 ps = Inr (s', ps')" and so: "shape_ok s'" and
    la: "list_all (part_ok s') ps'" and q: "\<forall>q. part_ok s1 q \<longrightarrow> part_ok s' q"
    by blast
  have "update_parts s (p # ps) = Inr (s', p1 # ps')" using a b by simp
  moreover have "list_all (part_ok s') (p1 # ps')" using la q K(2) by simp
  moreover have "\<forall>q. part_ok s q \<longrightarrow> part_ok s' q" using q K(3) by blast
  ultimately show ?case using so by blast
qed

lemma update_parts_append:
  "update_parts s (xs @ ys) =
     (case update_parts s xs of
        Inl e \<Rightarrow> Inl e
      | Inr (s1, xs') \<Rightarrow>
          (case update_parts s1 ys of
             Inl e \<Rightarrow> Inl e
           | Inr (s2, ys') \<Rightarrow> Inr (s2, xs' @ ys')))"
  by (induction xs arbitrary: s) (auto split: sum.splits)

lemma update_parts_nth:
  assumes u: "update_parts s ps = Inr (s', ps')" and so: "shape_ok s"
    and la: "list_all (part_ok s) ps" and di: "distinct (map pos ps)" and j: "j < length ps"
  shows "\<exists>sj psj. update_parts s (take j ps) = Inr (sj, psj) \<and>
     heap sj (pos (ps ! j)) = heap s (pos (ps ! j)) \<and>
     pos (ps' ! j) = pos (ps ! j) \<and>
     (\<forall>i<dim s. vel (ps' ! j) ! i = w s * vel (ps ! j) ! i
         + phiP s * rng s (rcur s + 2 * j)
             * (heap sj (bestPos (ps ! j)) ! i - heap sj (pos (ps ! j)) ! i)
         + phiG s * rng s (rcur s + 2 * j + 1)
             * (heap sj (globBestPos s) ! i - heap sj (pos (ps ! j)) ! i)) \<and>
     (\<forall>i<dim s. heap s' (pos (ps ! j)) ! i =
         clamp1 (minBound s ! i) (maxBound s ! i)
           (heap s (pos (ps ! j)) ! i + vel (ps' ! j) ! i)) \<and>
     fitness (ps' ! j) = problem s (heap s' (pos (ps ! j)))"
proof -
  let ?p = "ps ! j"
  have split: "ps = take j ps @ ?p # drop (Suc j) ps" using j by (rule id_take_nth_drop)
  have la1: "list_all (part_ok s) (take j ps)" and pj: "part_ok s ?p"
    using la j by (auto simp: list_all_iff dest: in_set_takeD)
  from update_parts_good[OF so la1] obtain sj psj where
    a: "update_parts s (take j ps) = Inr (sj, psj)" and soj: "shape_ok sj" and
    keep: "\<forall>q. part_ok s q \<longrightarrow> part_ok sj q"
    by blast
  note Fa = update_parts_frame[OF a]
  have cfg: "same_config s sj" and rc: "rcur sj = rcur s + 2 * j"
    and gj: "globBestPos sj = globBestPos s" and lj: "length psj = j"
    using Fa j by simp_all
  have poj: "part_ok sj ?p" using keep pj by blast
  from update_part_good[OF soj poj] obtain v x where
    b: "update_part sj ?p =
          Inr (sj\<lparr>rcur := rcur sj + 2, heap := (heap sj)(pos ?p := x)\<rparr>,
               ?p\<lparr>vel := v, fitness := problem sj x\<rparr>)" and
    ev: "\<forall>i<dim sj. v ! i = w sj * vel ?p ! i
         + phiP sj * rng sj (rcur sj) * (heap sj (bestPos ?p) ! i - heap sj (pos ?p) ! i)
         + phiG sj * rng sj (rcur sj + 1) * (heap sj (globBestPos sj) ! i - heap sj (pos ?p) ! i)"
    and ex: "\<forall>i<dim sj. x ! i =
         clamp1 (minBound sj ! i) (maxBound sj ! i) (heap sj (pos ?p) ! i + v ! i)"
    by blast
  let ?sj' = "sj\<lparr>rcur := rcur sj + 2, heap := (heap sj)(pos ?p := x)\<rparr>"
  let ?pj' = "?p\<lparr>vel := v, fitness := problem sj x\<rparr>"
  from u have "update_parts s (take j ps @ ?p # drop (Suc j) ps) = Inr (s', ps')"
    using split by simp
  then obtain rest where
    c: "update_parts ?sj' (drop (Suc j) ps) = Inr (s', rest)" and
    ps': "ps' = psj @ ?pj' # rest"
    using a b by (auto simp: update_parts_append split: sum.splits)
  have nj: "ps' ! j = ?pj'" using ps' lj by (simp add: nth_append)
  have "pos ?p \<notin> set (map pos (take j ps))"
    using di j split by (metis distinct_append distinct.simps(2) list.simps(9) map_append
        disjoint_iff list.set_intros(1))
  then have h1: "heap sj (pos ?p) = heap s (pos ?p)"
    using update_parts_heap_frame[OF a] by simp
  have "pos ?p \<notin> set (map pos (drop (Suc j) ps))"
    using di j split by (metis distinct_append distinct.simps(2) list.simps(9) map_append)
  then have h2: "heap s' (pos ?p) = x"
    using update_parts_heap_frame[OF c] by simp
  have cf: "dim sj = dim s" "w sj = w s" "phiP sj = phiP s" "phiG sj = phiG s"
    "rng sj = rng s" "minBound sj = minBound s" "maxBound sj = maxBound s"
    "problem sj = problem s"
    using cfg by (simp_all add: same_config_def)
  show ?thesis
    using a h1 h2 nj ev ex cf rc gj by (intro exI[of _ sj] exI[of _ psj]) (simp add: add.commute)
qed

subsection \<open>One generation\<close>

lemma glob_best_local: "glob_best s (local_best p) = glob_best s p"
  by (simp add: glob_best_def local_best_def)

lemma best_parts_eq: "best_parts s ps = (foldl glob_best s ps, map local_best ps)"
  by (induction ps arbitrary: s) (simp_all add: glob_best_local Let_def)

lemma local_best_fields:
  "pos (local_best p) = pos p" "bestPos (local_best p) = bestPos p"
  "vel (local_best p) = vel p" "fitness (local_best p) = fitness p"
  "bestFit (local_best p) = min (bestFit p) (fitness p)"
  by (simp_all add: local_best_def)

lemma update_decomp:
  assumes "update s = Inr s'"
  shows "\<exists>s1 ps1. update_parts s (Particles s) = Inr (s1, ps1) \<and>
           s' = (foldl glob_best s1 ps1)\<lparr>Particles := map local_best ps1\<rparr>"
  using assms by (auto simp: update_def best_parts_eq split: sum.splits)

lemma swarm_inv_parts:
  assumes "swarm_inv s"
  shows "shape_ok s" and "list_all (part_ok s) (Particles s)"
    and "distinct (map pos (Particles s))"
proof -
  from assms obtain p where "p \<in> set (Particles s)" "globBestPos s = pos p"
    by (auto simp: swarm_inv_def)
  with assms show "shape_ok s" by (auto simp: swarm_inv_def shape_ok_def list_all_iff)
  from assms show "list_all (part_ok s) (Particles s)"
    by (auto simp: swarm_inv_def part_ok_def list_all_iff)
  from assms show "distinct (map pos (Particles s))" by (simp add: swarm_inv_def)
qed

lemma update_good:
  assumes "swarm_inv s"
  shows "\<exists>s'. update s = Inr s' \<and> swarm_inv s'"
proof -
  note I = swarm_inv_parts[OF assms]
  from update_parts_good[OF I(1,2)] obtain s1 ps1 where
    a: "update_parts s (Particles s) = Inr (s1, ps1)" and so: "shape_ok s1" and
    la: "list_all (part_ok s1) ps1"
    by blast
  let ?s2 = "foldl glob_best s1 ps1"
  let ?s' = "?s2\<lparr>Particles := map local_best ps1\<rparr>"
  have u: "update s = Inr ?s'" using a by (simp add: update_def best_parts_eq)
  note Fa = update_parts_frame[OF a]
  note Fb = foldl_glob_best_props[of s1 ps1]
  have cfg: "same_config s ?s2" using Fa Fb by (blast intro: same_config_trans)
  then have c: "dim ?s2 = dim s" "minBound ?s2 = minBound s" "maxBound ?s2 = maxBound s"
    by (simp_all add: same_config_def)
  have "globBestPos s \<in> set (map pos ps1)" using assms Fa by (simp add: swarm_inv_def)
  then have g: "globBestPos ?s2 \<in> set (map pos ps1)" using Fa Fb by auto
  have "same_config s s1" using Fa by simp
  then have d1: "dim s1 = dim s" by (simp add: same_config_def)
  have "map bestPos (Particles s) = map pos (Particles s)"
    using assms by (simp add: swarm_inv_def list_all_iff)
  then have "map bestPos ps1 = map pos ps1" using Fa by simp
  then have al: "\<forall>p\<in>set ps1. bestPos p = pos p" by (simp only: map_eq_conv)
  have "swarm_inv ?s'"
    using assms c g la al Fa Fb d1
    by (simp add: swarm_inv_def list_all_iff part_ok_def local_best_fields comp_def
        cong: map_cong)
  with u show ?thesis by blast
qed

lemma update_nth:
  assumes inv: "swarm_inv s" and u: "update s = Inr s'" and j: "j < length (Particles s)"
  shows "\<exists>sj psj. update_parts s (take j (Particles s)) = Inr (sj, psj) \<and>
     heap sj (pos (Particles s ! j)) = heap s (pos (Particles s ! j)) \<and>
     pos (Particles s' ! j) = pos (Particles s ! j) \<and>
     bestPos (Particles s' ! j) = bestPos (Particles s ! j) \<and>
     bestPos (Particles s ! j) = pos (Particles s ! j) \<and>
     (\<forall>i<dim s. vel (Particles s' ! j) ! i = w s * vel (Particles s ! j) ! i
         + phiP s * rng s (rcur s + 2 * j)
             * (heap sj (bestPos (Particles s ! j)) ! i - heap sj (pos (Particles s ! j)) ! i)
         + phiG s * rng s (rcur s + 2 * j + 1)
             * (heap sj (globBestPos s) ! i - heap sj (pos (Particles s ! j)) ! i)) \<and>
     (\<forall>i<dim s. heap s' (pos (Particles s ! j)) ! i =
         clamp1 (minBound s ! i) (maxBound s ! i)
           (heap s (pos (Particles s ! j)) ! i + vel (Particles s' ! j) ! i)) \<and>
     fitness (Particles s' ! j) = problem s (heap s' (pos (Particles s ! j))) \<and>
     bestFit (Particles s' ! j) = min (bestFit (Particles s ! j)) (fitness (Particles s' ! j))"
proof -
  note I = swarm_inv_parts[OF inv]
  from update_decomp[OF u] obtain s1 ps1 where
    a: "update_parts s (Particles s) = Inr (s1, ps1)" and
    s': "s' = (foldl glob_best s1 ps1)\<lparr>Particles := map local_best ps1\<rparr>"
    by blast
  note Fa = update_parts_frame[OF a]
  note Fb = foldl_glob_best_props[of s1 ps1]
  have h: "heap s' = heap s1" using s' Fb by simp
  have j1: "j < length ps1" using Fa j by simp
  have pj: "Particles s' ! j = local_best (ps1 ! j)" using s' j1 by simp
  have bp: "bestPos (ps1 ! j) = bestPos (Particles s ! j)"
    and bf: "bestFit (ps1 ! j) = bestFit (Particles s ! j)"
    using Fa j j1 by (metis nth_map)+
  have al: "bestPos (Particles s ! j) = pos (Particles s ! j)"
    using inv j by (simp add: swarm_inv_def list_all_length)
  from update_parts_nth[OF a I(1,2,3) j] obtain sj psj where
    N: "update_parts s (take j (Particles s)) = Inr (sj, psj)"
      "heap sj (pos (Particles s ! j)) = heap s (pos (Particles s ! j))"
      "pos (ps1 ! j) = pos (Particles s ! j)"
      "\<forall>i<dim s. vel (ps1 ! j) ! i = w s * vel (Particles s ! j) ! i
         + phiP s * rng s (rcur s + 2 * j)
             * (heap sj (bestPos (Particles s ! j)) ! i - heap sj (pos (Particles s ! j)) ! i)
         + phiG s * rng s (rcur s + 2 * j + 1)
             * (heap sj (globBestPos s) ! i - heap sj (pos (Particles s ! j)) ! i)"
      "\<forall>i<dim s. heap s1 (pos (Particles s ! j)) ! i =
         clamp1 (minBound s ! i) (maxBound s ! i)
           (heap s (pos (Particles s ! j)) ! i + vel (ps1 ! j) ! i)"
      "fitness (ps1 ! j) = problem s (heap s1 (pos (Particles s ! j)))"
    by blast
  show ?thesis
    using N bp bf al
    by (intro exI[of _ sj] exI[of _ psj]) (simp add: pj h local_best_fields)
qed

lemma swarm_inv_shape: "swarm_inv s \<Longrightarrow> swarm_shape s"
  using swarm_inv_parts[of s] by (simp add: swarm_shape_def)



subsection \<open>Initialisation does not raise\<close>

lemma init_part_good:
  assumes "bounds_ok s" and "initPos s \<noteq> Some []"
  shows "\<exists>s' p'. init_part s p = Inr (s', p') \<and> initPos s' \<noteq> Some []"
  using assms
  by (auto simp: init_part_def init_pos_def bounds_ok_def random_n_def random_1_def alloc_def
      np_bop_same Let_def split: option.splits list.splits)

lemma init_parts_good:
  assumes "bounds_ok s" and "initPos s \<noteq> Some []"
  shows "\<exists>s' ps'. init_parts s ps = Inr (s', ps')"
  using assms
proof (induction ps arbitrary: s)
  case Nil
  then show ?case by simp
next
  case (Cons p ps)
  from init_part_good[OF Cons.prems] obtain s1 p1 where
    a: "init_part s p = Inr (s1, p1)" and n: "initPos s1 \<noteq> Some []" by blast
  from init_part_props(8)[OF a Cons.prems(1)] have "bounds_ok s1" by simp
  from Cons.IH[OF this n] a show ?case by auto
qed

lemma initPart_good:
  assumes "bounds_ok s" and "initPos s \<noteq> Some []" and "0 < nPart s"
  shows "\<exists>s0. initPart s = Inr s0"
proof -
  let ?ps0 = "map (\<lambda>i. Particle (dim s)) [0..<nPart s]"
  from init_parts_good[OF assms(1,2)] obtain s1 ps where
    a: "init_parts s ?ps0 = Inr (s1, ps)" by blast
  from init_parts_props[OF a] assms(3) have "length ps = nPart s" by simp
  with assms(3) obtain p0 ps' where "ps = p0 # ps'" by (cases ps) auto
  with a show ?thesis by (simp add: initPart_def)
qed

lemma PSO_init_fields:
  assumes "PSO_init func bounds ip k g = Inr s"
  shows "nPart s = 100" "epsError s = 1" "maxGen s = 500" "w s = 0.2" "phiP s = 0.2"
    "phiG s = 0.1" "problem s = func" "minBound s = fst bounds" "maxBound s = snd bounds"
    "dim s = length (fst bounds)" "rng s = g" "rcur s = 0" "nextAddr s = 0"
    "ip = None \<Longrightarrow> initPos s = None"
  using assms
  by (auto simp: PSO_init_def reshape_def Let_def split: option.splits sum.splits if_splits)

lemma constructed_swarm_gen:
  assumes c: "PSO_init func (lo, hi) ip k g = Inr s" and "length lo = length hi"
    and "initPos s \<noteq> Some []"
  shows "\<exists>s0. initPart s = Inr s0 \<and> swarm_inv s0 \<and> same_config s s0 \<and>
           length (Particles s0) = 100"
proof -
  note F = PSO_init_fields[OF c]
  have bo: "bounds_ok s" using c assms(2) by (rule PSO_init_bounds_ok)
  from initPart_good[OF bo assms(3)] F obtain s0 where i: "initPart s = Inr s0" by auto
  from initPart_props[OF i] bo F i show ?thesis by auto
qed

lemma constructed_swarm:
  assumes "length lo = length hi"
  shows "\<exists>s s0. PSO_init func (lo, hi) None k g = Inr s \<and> initPart s = Inr s0 \<and>
           swarm_inv s0 \<and> same_config s s0 \<and> length (Particles s0) = 100"
proof -
  obtain s where c: "PSO_init func (lo, hi) None k g = Inr s"
    by (simp add: PSO_init_def)
  note F = PSO_init_fields[OF c]
  have bo: "bounds_ok s" using c assms by (rule PSO_init_bounds_ok)
  from initPart_good[OF bo] F obtain s0 where i: "initPart s = Inr s0" by auto
  from initPart_props[OF i] bo F c i show ?thesis by auto
qed

subsection \<open>Runs of generations\<close>

lemma updates_good:
  "swarm_inv s \<Longrightarrow> \<exists>s'. updates k s = Inr s' \<and> swarm_inv s'"
proof (induction k arbitrary: s)
  case 0
  then show ?case by simp
next
  case (Suc k)
  from update_good[OF Suc.prems] obtain s1 where a: "update s = Inr s1" and i: "swarm_inv s1"
    by blast
  from Suc.IH[OF i] a show ?case by simp
qed

lemma update_glob_le:
  assumes "update s = Inr s'" shows "globBestFit s' \<le> globBestFit s"
proof -
  from update_decomp[OF assms] obtain s1 ps1 where
    a: "update_parts s (Particles s) = Inr (s1, ps1)" and
    s': "s' = (foldl glob_best s1 ps1)\<lparr>Particles := map local_best ps1\<rparr>"
    by blast
  from update_parts_frame[OF a] have "globBestFit s1 = globBestFit s" by simp
  with foldl_glob_best_props[of s1 ps1] s' show ?thesis by simp
qed

lemma updates_glob_le: "updates k s = Inr s' \<Longrightarrow> globBestFit s' \<le> globBestFit s"
proof (induction k arbitrary: s)
  case 0
  then show ?case by simp
next
  case (Suc k)
  then obtain s1 where a: "update s = Inr s1" and b: "updates k s1 = Inr s'"
    by (auto split: sum.splits)
  from update_glob_le[OF a] Suc.IH[OF b] show ?case by simp
qed

lemma update_rcur:
  assumes "update s = Inr s'" shows "rcur s' = rcur s + 2 * length (Particles s)"
  using update_frame[OF assms] by simp

lemma update_aliases:
  assumes "update s = Inr s'"
  shows "map pos (Particles s') = map pos (Particles s)"
    and "map bestPos (Particles s') = map bestPos (Particles s)"
proof -
  from update_decomp[OF assms] obtain s1 ps1 where
    a: "update_parts s (Particles s) = Inr (s1, ps1)" and
    s': "s' = (foldl glob_best s1 ps1)\<lparr>Particles := map local_best ps1\<rparr>"
    by blast
  from update_parts_frame[OF a] s'
  show "map pos (Particles s') = map pos (Particles s)"
    and "map bestPos (Particles s') = map bestPos (Particles s)"
    by (simp_all add: comp_def local_best_fields)
qed

subsection \<open>The best fitness is a value of the objective\<close>

lemma foldl_glob_best_fit:
  "globBestFit (foldl glob_best s ps) \<in> insert (globBestFit s) (set (map fitness ps))"
proof (induction ps arbitrary: s)
  case Nil
  then show ?case by simp
next
  case (Cons p ps)
  have "globBestFit (glob_best s p) \<in> {globBestFit s, fitness p}"
    by (simp add: glob_best_def)
  with Cons.IH[of "glob_best s p"] show ?case by auto
qed

lemma foldl_glob_best_id:
  "list_all (\<lambda>p. \<not> fitness p < globBestFit s) ps \<Longrightarrow> foldl glob_best s ps = s"
  by (induction ps) (simp_all add: glob_best_def)

lemma update_part_fitness:
  "update_part s p = Inr (s', p') \<Longrightarrow> fitness p' = problem s (heap s' (pos p))"
  by (auto simp: update_part_def random_n_def clamp_lower_def clamp_upper_def
      split: sum.splits if_splits)

lemma update_parts_fitness:
  "update_parts s ps = Inr (s', ps') \<Longrightarrow> list_all (\<lambda>p. fitness p \<in> range (problem s)) ps'"
proof (induction ps arbitrary: s s' ps')
  case Nil
  then show ?case by simp
next
  case (Cons p ps)
  from Cons.prems obtain s1 p1 ps1 where
    a: "update_part s p = Inr (s1, p1)" and b: "update_parts s1 ps = Inr (s', ps1)"
    and c: "ps' = p1 # ps1"
    by (auto split: sum.splits)
  from update_part_frame[OF a] have "problem s1 = problem s" by (simp add: same_config_def)
  with update_part_fitness[OF a] Cons.IH[OF b] c show ?case by simp
qed

lemma initPart_glob:
  assumes "initPart s = Inr s0"
  shows "globBestFit s0 \<in> range (problem s)"
proof -
  from assms obtain s1 p0 ps where
    b: "s0 = foldl glob_best
          (s1\<lparr>Particles := p0 # ps, globBestFit := fitness p0, globBestPos := pos p0\<rparr>)
          (p0 # ps)"
    by (auto simp: initPart_def split: sum.splits list.splits)
  let ?s2 = "s1\<lparr>Particles := p0 # ps, globBestFit := fitness p0, globBestPos := pos p0\<rparr>"
  have P: "Particles s0 = p0 # ps"
    using foldl_glob_best_props[of ?s2 "p0 # ps"] b by simp
  from foldl_glob_best_fit[of ?s2 "p0 # ps"] b
  have "globBestFit s0 \<in> set (map fitness (Particles s0))" unfolding P by simp
  with initPart_props(3)[OF assms] show ?thesis by (auto simp: list_all_iff)
qed

lemma update_glob:
  assumes "update s = Inr s'"
  shows "globBestFit s' = globBestFit s \<or> globBestFit s' \<in> range (problem s)"
proof -
  from update_decomp[OF assms] obtain s1 ps1 where
    a: "update_parts s (Particles s) = Inr (s1, ps1)" and
    s': "s' = (foldl glob_best s1 ps1)\<lparr>Particles := map local_best ps1\<rparr>"
    by blast
  from update_parts_frame[OF a] have g: "globBestFit s1 = globBestFit s" by simp
  from foldl_glob_best_fit[of s1 ps1] s' g update_parts_fitness[OF a] show ?thesis
    by (auto simp: list_all_iff)
qed

lemma optimize_loop_run:
  assumes "swarm_inv s"
  shows "\<exists>k sk. k \<le> maxGen s - idx \<and> updates k s = Inr sk \<and> optimize_loop idx s = Inr sk \<and>
     (\<forall>m sm. 0 < m \<and> m < k \<and> updates m s = Inr sm \<longrightarrow> \<not> globBestFit sm < epsError s) \<and>
     (k = maxGen s - idx \<or> 0 < k \<and> globBestFit sk < epsError s)"
  using assms
proof (induction "maxGen s - idx" arbitrary: idx s)
  case 0
  then have "optimize_loop idx s = Inr s" by (simp add: optimize_loop.simps)
  with 0 show ?case by (intro exI[of _ 0] exI[of _ s]) simp
next
  case (Suc n)
  then have lt: "idx < maxGen s" by simp
  from update_good[OF Suc.prems] obtain s1 where u: "update s = Inr s1" and i1: "swarm_inv s1"
    by blast
  from update_frame[OF u] have c: "maxGen s1 = maxGen s" "epsError s1 = epsError s"
    by (simp_all add: same_config_def)
  show ?case
  proof (cases "globBestFit s1 < epsError s")
    case True
    have "optimize_loop idx s = Inr s1"
      using lt u True c by (subst optimize_loop.simps) simp
    with lt u True show ?thesis by (intro exI[of _ 1] exI[of _ s1]) auto
  next
    case False
    have o: "optimize_loop idx s = optimize_loop (idx + 1) s1"
      using lt u False c by (subst optimize_loop.simps) simp
    have "n = maxGen s1 - (idx + 1)" using Suc.hyps(2) c by simp
    from Suc.hyps(1)[OF this i1] obtain k sk where
      K: "k \<le> maxGen s1 - (idx + 1)" "updates k s1 = Inr sk"
        "optimize_loop (idx + 1) s1 = Inr sk"
        "\<forall>m sm. 0 < m \<and> m < k \<and> updates m s1 = Inr sm \<longrightarrow> \<not> globBestFit sm < epsError s1"
        "k = maxGen s1 - (idx + 1) \<or> 0 < k \<and> globBestFit sk < epsError s1"
      by blast
    have "\<not> globBestFit sm < epsError s" if "0 < m" "m < Suc k" "updates m s = Inr sm" for m sm
    proof (cases m)
      case 0
      with that show ?thesis by simp
    next
      case (Suc m')
      with that u have m': "updates m' s1 = Inr sm" "m' < k" by simp_all
      show ?thesis
      proof (cases m')
        case 0
        with m' False show ?thesis by simp
      next
        case (Suc m'')
        then have "0 < m'" by simp
        with K(4)[unfolded c] m' show ?thesis by blast
      qed
    qed
    moreover have "Suc k \<le> maxGen s - idx" using K(1) c lt by simp
    moreover have "updates (Suc k) s = Inr sk" using u K(2) by simp
    moreover have "Suc k = maxGen s - idx \<or> 0 < Suc k \<and> globBestFit sk < epsError s"
      using K(5) c lt by auto
    ultimately show ?thesis using o K(3) by (intro exI[of _ "Suc k"] exI[of _ sk]) auto
  qed
qed

subsection \<open>The first particle of a swarm\<close>

lemma initPart_first:
  assumes "initPart s = Inr s0"
  shows "\<exists>sa p0. init_part s (Particle (dim s)) = Inr (sa, p0) \<and> Particles s0 ! 0 = p0 \<and>
     heap s0 (pos p0) = heap sa (pos p0) \<and>
     (list_all (\<lambda>p. \<not> fitness p < fitness p0) (Particles s0) \<longrightarrow>
        globBestFit s0 = fitness p0 \<and> globBestPos s0 = pos p0)"
proof -
  let ?ps0 = "map (\<lambda>i. Particle (dim s)) [0..<nPart s]"
  from assms obtain s1 p0 ps where
    a: "init_parts s ?ps0 = Inr (s1, p0 # ps)" and
    b: "s0 = foldl glob_best
          (s1\<lparr>Particles := p0 # ps, globBestFit := fitness p0, globBestPos := pos p0\<rparr>)
          (p0 # ps)"
    by (auto simp: initPart_def split: sum.splits list.splits)
  let ?s2 = "s1\<lparr>Particles := p0 # ps, globBestFit := fitness p0, globBestPos := pos p0\<rparr>"
  have n: "0 < nPart s" using init_parts_props[OF a] by simp
  then have "?ps0 = Particle (dim s) # map (\<lambda>i. Particle (dim s)) [1..<nPart s]"
    by (simp add: upt_rec)
  with a obtain sa where
    c: "init_part s (Particle (dim s)) = Inr (sa, p0)" and
    d: "init_parts sa (map (\<lambda>i. Particle (dim s)) [1..<nPart s]) = Inr (s1, ps)"
    by (auto split: sum.splits)
  have "pos p0 < nextAddr sa" using init_part_props(2,3)[OF c] by simp
  then have h: "heap s1 (pos p0) = heap sa (pos p0)" using init_parts_props[OF d] by simp
  have P: "Particles s0 = p0 # ps" and H: "heap s0 = heap s1"
    using foldl_glob_best_props[of ?s2 "p0 # ps"] b by simp_all
  have "globBestFit s0 = fitness p0 \<and> globBestPos s0 = pos p0"
    if "list_all (\<lambda>p. \<not> fitness p < fitness p0) (Particles s0)"
  proof -
    from that P have "list_all (\<lambda>p. \<not> fitness p < globBestFit ?s2) (p0 # ps)" by simp
    from foldl_glob_best_id[OF this] b show ?thesis by simp
  qed
  with c P H h show ?thesis by auto
qed

lemma update_glob_id:
  assumes "update s = Inr s'" and "\<forall>x. \<not> problem s x < globBestFit s"
  shows "globBestFit s' = globBestFit s \<and> globBestPos s' = globBestPos s"
proof -
  from update_decomp[OF assms(1)] obtain s1 ps1 where
    a: "update_parts s (Particles s) = Inr (s1, ps1)" and
    s': "s' = (foldl glob_best s1 ps1)\<lparr>Particles := map local_best ps1\<rparr>"
    by blast
  from update_parts_frame[OF a] have g: "globBestFit s1 = globBestFit s"
    "globBestPos s1 = globBestPos s" by simp_all
  have "list_all (\<lambda>p. \<not> fitness p < globBestFit s1) ps1"
    using update_parts_fitness[OF a] assms(2) g by (auto simp: list_all_iff)
  from foldl_glob_best_id[OF this] s' g show ?thesis by simp
qed

lemma square_fn_nonneg: "\<not> square_fn x < 0"
  by (simp add: square_fn_def not_less)

lemma stale_best_run:
  "\<exists>s s0 s1. PSO_init square_fn ([0], [10]) (Some [[0]]) 10 draws = Inr s \<and>
     initPart s = Inr s0 \<and> update s0 = Inr s1 \<and> problem s1 = square_fn \<and>
     globBestFit s1 = 0 \<and> globBestPos s1 = pos (Particles s1 ! 0) \<and>
     bestFit (Particles s1 ! 0) = 0 \<and> bestPos (Particles s1 ! 0) = pos (Particles s1 ! 0) \<and>
     heap s1 (pos (Particles s1 ! 0)) = [3 / 2]"
proof -
  obtain s where c: "PSO_init square_fn ([0], [10]) (Some [[0]]) 10 draws = Inr s"
    by (simp add: PSO_init_def reshape_def)
  then have s: "s = \<lparr>nPart = 100, epsError = 1, maxGen = 500, w = 0.2, phiP = 0.2, phiG = 0.1,
                problem = square_fn, minBound = [0], maxBound = [10],
                dim = 1, initPos = Some [[0]], Particles = [],
                globBestFit = 0, globBestPos = 0, heap = (\<lambda>a. []), nextAddr = 0,
                rng = draws, rcur = 0\<rparr>"
    by (simp add: PSO_init_def reshape_def)
  then have "initPos s \<noteq> Some []" by simp
  from constructed_swarm_gen[OF c _ this] obtain s0 where i: "initPart s = Inr s0"
    and inv: "swarm_inv s0" and cfg: "same_config s s0" and n: "length (Particles s0) = 100"
    by auto
  have f0: "dim s0 = 1" "w s0 = 0.2" "minBound s0 = [0]" "maxBound s0 = [10]"
    "problem s0 = square_fn"
    using cfg by (simp_all add: same_config_def s)
  from initPart_first[OF i] obtain sa p0 where
    f: "init_part s (Particle (dim s)) = Inr (sa, p0)" "Particles s0 ! 0 = p0"
      "heap s0 (pos p0) = heap sa (pos p0)"
      "list_all (\<lambda>p. \<not> fitness p < fitness p0) (Particles s0) \<longrightarrow>
        globBestFit s0 = fitness p0 \<and> globBestPos s0 = pos p0"
    by blast
  from f(1) have p0: "heap sa (pos p0) = [0]" "vel p0 = [15 / 2]" "fitness p0 = 0"
    "bestFit p0 = 0"
    by (auto simp: s init_part_def init_pos_def random_n_def random_1_def alloc_def np_bop_def
        np_scal_def Particle_def draws_def square_fn_def Let_def)
  have "list_all (\<lambda>p. \<not> fitness p < fitness p0) (Particles s0)"
    using initPart_props(3)[OF i] p0(3) by (simp add: list_all_iff s square_fn_nonneg)
  with f(4) p0(3) have g0: "globBestFit s0 = 0" "globBestPos s0 = pos p0" by simp_all
  from update_good[OF inv] obtain s1 where u: "update s0 = Inr s1" and inv1: "swarm_inv s1"
    by blast
  have j: "0 < length (Particles s0)" using n by simp
  from update_nth[OF inv u j] obtain sj psj where
    R: "update_parts s0 (take 0 (Particles s0)) = Inr (sj, psj)"
      "pos (Particles s1 ! 0) = pos (Particles s0 ! 0)"
      "bestPos (Particles s1 ! 0) = bestPos (Particles s0 ! 0)"
      "bestPos (Particles s0 ! 0) = pos (Particles s0 ! 0)"
      "\<forall>i<dim s0. vel (Particles s1 ! 0) ! i = w s0 * vel (Particles s0 ! 0) ! i
         + phiP s0 * rng s0 (rcur s0 + 2 * 0)
             * (heap sj (bestPos (Particles s0 ! 0)) ! i - heap sj (pos (Particles s0 ! 0)) ! i)
         + phiG s0 * rng s0 (rcur s0 + 2 * 0 + 1)
             * (heap sj (globBestPos s0) ! i - heap sj (pos (Particles s0 ! 0)) ! i)"
      "\<forall>i<dim s0. heap s1 (pos (Particles s0 ! 0)) ! i =
         clamp1 (minBound s0 ! i) (maxBound s0 ! i)
           (heap s0 (pos (Particles s0 ! 0)) ! i + vel (Particles s1 ! 0) ! i)"
      "fitness (Particles s1 ! 0) = problem s0 (heap s1 (pos (Particles s0 ! 0)))"
      "bestFit (Particles s1 ! 0) =
         min (bestFit (Particles s0 ! 0)) (fitness (Particles s1 ! 0))"
    by blast
  have N: "pos (Particles s1 ! 0) = pos p0" "bestPos (Particles s1 ! 0) = bestPos p0"
    "bestPos p0 = pos p0"
    "fitness (Particles s1 ! 0) = square_fn (heap s1 (pos p0))"
    "bestFit (Particles s1 ! 0) = min (bestFit p0) (fitness (Particles s1 ! 0))"
    using R(2,3,4,7,8) f(2) f0(5) by simp_all
  have "vel (Particles s1 ! 0) ! 0 = w s0 * vel p0 ! 0
         + phiP s0 * rng s0 (rcur s0 + 2 * 0)
             * (heap sj (bestPos p0) ! 0 - heap sj (pos p0) ! 0)
         + phiG s0 * rng s0 (rcur s0 + 2 * 0 + 1)
             * (heap sj (globBestPos s0) ! 0 - heap sj (pos p0) ! 0)"
    using R(5) f0(1) f(2) by simp
  then have v: "vel (Particles s1 ! 0) ! 0 = 3 / 2"
    using N(3) g0(2) p0(2) f0(2) by simp
  have "heap s1 (pos p0) ! 0 =
         clamp1 (minBound s0 ! 0) (maxBound s0 ! 0)
           (heap s0 (pos p0) ! 0 + vel (Particles s1 ! 0) ! 0)"
    using R(6) f0(1) f(2) by simp
  then have x: "heap s1 (pos p0) ! 0 = 3 / 2"
    using v f(3) p0(1) f0(3,4) by (simp add: clamp1_def)
  have "length (Particles s1) = 100" using update_aliases(1)[OF u] n by (metis length_map)
  then have "part_ok s1 (Particles s1 ! 0)"
    using swarm_inv_parts(2)[OF inv1] by (simp add: list_all_length)
  moreover have "dim s1 = 1" "problem s1 = square_fn"
    using update_frame[OF u] f0 by (simp_all add: same_config_def)
  ultimately have l: "length (heap s1 (pos p0)) = 1" and p1: "problem s1 = square_fn"
    using N(1) by (simp_all add: part_ok_def)
  from l x have h: "heap s1 (pos p0) = [3 / 2]"
    by (cases "heap s1 (pos p0)") simp_all
  have bf: "bestFit (Particles s1 ! 0) = 0"
    using N(4,5) p0(4) h by (simp add: square_fn_def)
  have "\<forall>x. \<not> problem s0 x < globBestFit s0" using f0 g0 by (simp add: square_fn_nonneg)
  from update_glob_id[OF u this] g0 have g1: "globBestFit s1 = 0" "globBestPos s1 = pos p0"
    by simp_all
  from c i u p1 g1 bf N(1,2,3) h show ?thesis by auto
qed

section \<open>The claims\<close>

text \<open>
  C1. A position that \<open>__initPart\<close> draws lies in \<open>[lower[i], upper[i]]\<close> in every
  dimension. Line 89 computes \<open>random * maxBound - minBound\<close>, not
  \<open>minBound + random * (maxBound - minBound)\<close>: with the bounds 5 and 10 and a draw of 3/4
  the first particle starts at 5/2, below the lower bound.
\<close>

theorem initial_position_outside_box:
  "\<exists>s s0. PSO_init square_fn ([5], [10]) None 10 draws = Inr s \<and> initPart s = Inr s0 \<and>
     minBound s0 = [5] \<and> maxBound s0 = [10] \<and> heap s0 (pos (Particles s0 ! 0)) = [5 / 2]"
proof -
  from constructed_swarm[of "[5]" "[10]" square_fn 10 draws] obtain s s0 where
    c: "PSO_init square_fn ([5], [10]) None 10 draws = Inr s" and i: "initPart s = Inr s0"
    and cfg: "same_config s s0"
    by auto
  have s: "s = \<lparr>nPart = 100, epsError = 1, maxGen = 500, w = 0.2, phiP = 0.2, phiG = 0.1,
                problem = square_fn, minBound = [5], maxBound = [10],
                dim = 1, initPos = None, Particles = [],
                globBestFit = 0, globBestPos = 0, heap = (\<lambda>a. []), nextAddr = 0,
                rng = draws, rcur = 0\<rparr>"
    using c by (simp add: PSO_init_def)
  from initPart_first[OF i] obtain sa p0 where
    f: "init_part s (Particle (dim s)) = Inr (sa, p0)" "Particles s0 ! 0 = p0"
      "heap s0 (pos p0) = heap sa (pos p0)"
    by blast
  from f(1) have "heap sa (pos p0) = [5 / 2]"
    by (auto simp: s init_part_def init_pos_def random_n_def random_1_def alloc_def np_bop_def
        np_scal_def Particle_def draws_def Let_def)
  moreover have "minBound s0 = [5]" "maxBound s0 = [10]"
    using cfg by (simp_all add: same_config_def s)
  ultimately show ?thesis using c i f by auto
qed

text \<open>
  C2. After every \<open>update()\<close> the objective at \<open>globBestPos\<close> is \<open>globBestFit\<close>. Line 108
  makes \<open>globBestPos\<close> the position array of a particle, and line 128 moves that array:
  minimising the square on \<open>[0, 10]\<close> with the first particle seeded at 0, the best fitness
  after one generation is still 0, and \<open>globBestPos\<close> is an array that holds 3/2, where the
  objective is 9/4.
\<close>

theorem global_best_position_drifts:
  "\<exists>s s0 s1. PSO_init square_fn ([0], [10]) (Some [[0]]) 10 draws = Inr s \<and>
     initPart s = Inr s0 \<and> update s0 = Inr s1 \<and>
     globBestFit s1 = 0 \<and> problem s1 (heap s1 (globBestPos s1)) = 9 / 4"
proof -
  from stale_best_run obtain s s0 s1 where
    "PSO_init square_fn ([0], [10]) (Some [[0]]) 10 draws = Inr s" "initPart s = Inr s0"
    "update s0 = Inr s1" "problem s1 = square_fn" "globBestFit s1 = 0"
    "globBestPos s1 = pos (Particles s1 ! 0)" "heap s1 (pos (Particles s1 ! 0)) = [3 / 2]"
    by blast
  moreover have "square_fn [3 / 2] = 9 / 4" by (simp add: square_fn_def power2_eq_square)
  ultimately show ?thesis by auto
qed

text \<open>
  C3, as the specification states it: construction fails with \<open>InvalidBoundsError\<close>
  exactly when the bounds differ in length or some \<open>lower[i] > upper[i]\<close>. The constructor
  does not look at the bounds: with a lower bound above the upper one, and with bounds of
  different lengths, it returns an optimizer.
\<close>

theorem construction_accepts_bad_bounds:
  "(5::real) > 1 \<and> \<not> isl (PSO_init zero_fn ([5], [1]) None 10 draws) \<and>
   length [0::real, 0] \<noteq> length [1::real] \<and>
   \<not> isl (PSO_init zero_fn ([0, 0], [1]) None 10 draws)"
  by (simp add: PSO_init_def)

text \<open>
  C3, amended. Construction never compares the bounds and has no error of its own. It
  fails in one way only, with numpy's \<open>ValueError\<close>, and exactly when initial positions
  are given whose elements cannot be cut into rows of length \<open>D = len(lower)\<close> (\<open>D\<close> is zero,
  or the number of elements is not a multiple of \<open>D\<close>). With no initial positions it
  succeeds for every pair of bounds.
\<close>

theorem construction_fails_only_on_reshape:
  "PSO_init func (lo, hi) ip k g = Inl e \<longleftrightarrow>
     e = ValueError \<and>
     (\<exists>rows. ip = Some rows \<and> (length lo = 0 \<or> length (concat rows) mod length lo \<noteq> 0))"
  by (cases e) (auto simp: PSO_init_def reshape_def Let_def split: option.splits)

text \<open>
  C4. The swarm has \<open>swarmSize\<close> particles, the caller's value when one is given. The
  constructor takes the argument \<open>nPart\<close> and does not read it: asked for 5 particles, the
  initialised swarm has 100.
\<close>

theorem swarm_size_ignores_nPart:
  "\<exists>s s0. PSO_init square_fn ([0], [10]) None 5 draws = Inr s \<and> initPart s = Inr s0 \<and>
     length (Particles s0) = 100"
  using constructed_swarm[of "[0]" "[10]" square_fn 5 draws] by auto

text \<open>
  C5. At every moment a particle's \<open>bestFit\<close> is the objective at its \<open>bestPos\<close>. Line 104
  makes \<open>bestPos\<close> the array that is \<open>pos\<close>, and lines 145 and 146 keep the old \<open>bestFit\<close>
  when the particle has moved to a worse place: in the same run the first particle has
  \<open>bestFit\<close> 0 after one generation, and its \<open>bestPos\<close> holds 3/2, where the objective is
  9/4.
\<close>

theorem personal_best_position_drifts:
  "\<exists>s s0 s1. PSO_init square_fn ([0], [10]) (Some [[0]]) 10 draws = Inr s \<and>
     initPart s = Inr s0 \<and> update s0 = Inr s1 \<and>
     bestFit (Particles s1 ! 0) = 0 \<and>
     problem s1 (heap s1 (bestPos (Particles s1 ! 0))) = 9 / 4"
proof -
  from stale_best_run obtain s s0 s1 where
    "PSO_init square_fn ([0], [10]) (Some [[0]]) 10 draws = Inr s" "initPart s = Inr s0"
    "update s0 = Inr s1" "problem s1 = square_fn" "bestFit (Particles s1 ! 0) = 0"
    "bestPos (Particles s1 ! 0) = pos (Particles s1 ! 0)"
    "heap s1 (pos (Particles s1 ! 0)) = [3 / 2]"
    by blast
  moreover have "square_fn [3 / 2] = 9 / 4" by (simp add: square_fn_def power2_eq_square)
  ultimately show ?thesis by auto
qed

text \<open>
  C6. \<open>optimize()\<close> initialises the swarm once and then calls \<open>update()\<close> some \<open>k\<close> times,
  \<open>k\<close> at most \<open>maxGen\<close>; it returns the pair of the best position and the best fitness
  of the swarm it has then. It stops after the first call that leaves the best fitness
  below \<open>epsError\<close> (no earlier call did, and either the \<open>k\<close>-th call did or the \<open>maxGen\<close>
  calls are used up). With an objective that is zero everywhere, a positive threshold
  and at least one generation allowed (the constructor allows 500), \<open>k\<close> is one and the
  fitness returned is zero. This holds whenever the bounds have the length \<open>dim\<close>, there is
  at least one particle, and \<open>initPos\<close> is not an array with no rows: then no step raises.
\<close>

theorem optimize_run:
  assumes "bounds_ok s" and "initPos s \<noteq> Some []" and "0 < nPart s"
  shows "\<exists>s0 k sk. initPart s = Inr s0 \<and> updates k s0 = Inr sk \<and> k \<le> maxGen s \<and>
     optimize s = Inr (heap sk (globBestPos sk), globBestFit sk) \<and>
     (\<forall>m sm. 0 < m \<and> m < k \<and> updates m s0 = Inr sm \<longrightarrow> \<not> globBestFit sm < epsError s) \<and>
     (k = maxGen s \<or> 0 < k \<and> globBestFit sk < epsError s) \<and>
     ((\<forall>x. problem s x = 0) \<and> 0 < epsError s \<and> 0 < maxGen s \<longrightarrow> k = 1 \<and> globBestFit sk = 0)"
proof -
  from initPart_good[OF assms] obtain s0 where i: "initPart s = Inr s0" by blast
  note P = initPart_props[OF i]
  have c: "maxGen s0 = maxGen s" "epsError s0 = epsError s" "problem s0 = problem s"
    using P(1) by (simp_all add: same_config_def)
  have inv: "swarm_inv s0" using P(6) assms(1) by simp
  from optimize_loop_run[OF inv, of 0] obtain k sk where
    K: "k \<le> maxGen s" "updates k s0 = Inr sk" "optimize_loop 0 s0 = Inr sk"
      "\<forall>m sm. 0 < m \<and> m < k \<and> updates m s0 = Inr sm \<longrightarrow> \<not> globBestFit sm < epsError s"
      "k = maxGen s \<or> 0 < k \<and> globBestFit sk < epsError s"
    unfolding c by auto
  have o: "optimize s = Inr (heap sk (globBestPos sk), globBestFit sk)"
    using i K(3) by (simp add: optimize_def finished_def)
  have z: "k = 1 \<and> globBestFit sk = 0"
    if h: "(\<forall>x. problem s x = 0) \<and> 0 < epsError s \<and> 0 < maxGen s"
  proof -
    from h have r: "range (problem s) = {0}" by auto
    from initPart_glob[OF i] r have g0: "globBestFit s0 = 0" by simp
    from update_good[OF inv] obtain s1 where u: "update s0 = Inr s1" by blast
    from update_glob[OF u] g0 c r have g1: "globBestFit s1 = 0" by auto
    have u1: "updates 1 s0 = Inr s1" using u by simp
    have "\<not> 1 < k" using K(4) u1 g1 h by force
    moreover have "0 < k" using K(5) h by auto
    ultimately have "k = 1" by simp
    with K(2) u1 g1 show ?thesis by simp
  qed
  from i K o z show ?thesis by blast
qed

theorem optimize_run_witness:
  "\<exists>s s0 s1. PSO_init zero_fn ([0], [10]) None 10 draws = Inr s \<and>
     initPart s = Inr s0 \<and> update s0 = Inr s1 \<and>
     optimize s = Inr (heap s1 (globBestPos s1), 0)"
proof -
  obtain s where c: "PSO_init zero_fn ([0], [10]) None 10 draws = Inr s"
    by (simp add: PSO_init_def)
  note F = PSO_init_fields[OF c]
  have bo: "bounds_ok s" using c by (rule PSO_init_bounds_ok) simp
  have z: "\<forall>x. problem s x = 0" using F(7) by (simp add: zero_fn_def)
  from optimize_run[OF bo] F z obtain s0 sk where
    "initPart s = Inr s0" "updates 1 s0 = Inr sk"
    "optimize s = Inr (heap sk (globBestPos sk), globBestFit sk)" "globBestFit sk = 0"
    by auto
  with c show ?thesis by (auto split: sum.splits)
qed



text \<open>
  C8. When \<open>lower[i] \<le> upper[i]\<close>, \<open>update()\<close> returns, and after it coordinate \<open>i\<close> of every
  particle's position lies in \<open>[lower[i], upper[i]]\<close>: it is the old coordinate plus the new
  velocity, replaced by \<open>lower[i]\<close> when that is below it and by \<open>upper[i]\<close> when that is
  above it. The velocity in this sum is the particle's velocity after the call, and it is
  the velocity that line 125 computed, clamped coordinate or not: clamping the position
  left it as it was. The swarm is again one that the next \<open>update()\<close> treats so. In the
  witness the first particle starts at 5/2 with the bounds 5 and 10, moves by 3/4 and is
  set to 5; its velocity stays 3/4.
\<close>

theorem positions_clamped:
  assumes "swarm_inv s" and "j < length (Particles s)"
    and "i < dim s" and "minBound s ! i \<le> maxBound s ! i"
  shows "\<exists>s'. update s = Inr s' \<and>
     minBound s ! i \<le> heap s' (pos (Particles s' ! j)) ! i \<and>
     heap s' (pos (Particles s' ! j)) ! i \<le> maxBound s ! i \<and>
     heap s' (pos (Particles s' ! j)) ! i =
       (let y = heap s (pos (Particles s ! j)) ! i + vel (Particles s' ! j) ! i
        in if y < minBound s ! i then minBound s ! i
           else if maxBound s ! i < y then maxBound s ! i else y) \<and>
     (\<exists>sj psj. update_parts s (take j (Particles s)) = Inr (sj, psj) \<and>
        vel (Particles s' ! j) ! i =
          w s * vel (Particles s ! j) ! i
          + phiP s * rng s (rcur s + 2 * j)
              * (heap sj (bestPos (Particles s ! j)) ! i - heap sj (pos (Particles s ! j)) ! i)
          + phiG s * rng s (rcur s + 2 * j + 1)
              * (heap sj (globBestPos s) ! i - heap sj (pos (Particles s ! j)) ! i)) \<and>
     swarm_inv s' \<and> minBound s' = minBound s \<and> maxBound s' = maxBound s \<and> dim s' = dim s"
proof -
  from update_good[OF assms(1)] obtain s' where u: "update s = Inr s'" and inv: "swarm_inv s'"
    by blast
  from update_nth[OF assms(1) u assms(2)] obtain sj psj where
    a: "update_parts s (take j (Particles s)) = Inr (sj, psj)" and
    p: "pos (Particles s' ! j) = pos (Particles s ! j)" and
    v: "\<forall>i<dim s. vel (Particles s' ! j) ! i = w s * vel (Particles s ! j) ! i
         + phiP s * rng s (rcur s + 2 * j)
             * (heap sj (bestPos (Particles s ! j)) ! i - heap sj (pos (Particles s ! j)) ! i)
         + phiG s * rng s (rcur s + 2 * j + 1)
             * (heap sj (globBestPos s) ! i - heap sj (pos (Particles s ! j)) ! i)" and
    x: "\<forall>i<dim s. heap s' (pos (Particles s ! j)) ! i =
         clamp1 (minBound s ! i) (maxBound s ! i)
           (heap s (pos (Particles s ! j)) ! i + vel (Particles s' ! j) ! i)"
    by blast
  have x': "heap s' (pos (Particles s' ! j)) ! i =
         clamp1 (minBound s ! i) (maxBound s ! i)
           (heap s (pos (Particles s ! j)) ! i + vel (Particles s' ! j) ! i)"
    using x p assms(3) by simp
  have box: "minBound s ! i \<le> heap s' (pos (Particles s' ! j)) ! i"
    "heap s' (pos (Particles s' ! j)) ! i \<le> maxBound s ! i"
    using assms(4) by (simp_all add: x' clamp1_def Let_def)
  have eq: "heap s' (pos (Particles s' ! j)) ! i =
       (let y = heap s (pos (Particles s ! j)) ! i + vel (Particles s' ! j) ! i
        in if y < minBound s ! i then minBound s ! i
           else if maxBound s ! i < y then maxBound s ! i else y)"
    using assms(4) by (simp add: x' clamp1_def Let_def)
  from update_frame[OF u] have
    "minBound s' = minBound s" "maxBound s' = maxBound s" "dim s' = dim s"
    by (simp_all add: same_config_def)
  with u box eq inv a v assms(3) show ?thesis by blast
qed

theorem positions_clamped_witness:
  "\<exists>s s0 s1. PSO_init zero_fn ([5], [10]) None 10 draws = Inr s \<and>
     initPart s = Inr s0 \<and> update s0 = Inr s1 \<and>
     minBound s0 ! 0 = 5 \<and> maxBound s0 ! 0 = 10 \<and>
     heap s0 (pos (Particles s0 ! 0)) ! 0 = 5 / 2 \<and>
     vel (Particles s1 ! 0) ! 0 = 3 / 4 \<and>
     heap s1 (pos (Particles s1 ! 0)) ! 0 = 5"
proof -
  from constructed_swarm[of "[5]" "[10]" zero_fn 10 draws] obtain s s0 where
    c: "PSO_init zero_fn ([5], [10]) None 10 draws = Inr s" and i: "initPart s = Inr s0"
    and inv: "swarm_inv s0" and cfg: "same_config s s0" and n: "length (Particles s0) = 100"
    by auto
  have s: "s = \<lparr>nPart = 100, epsError = 1, maxGen = 500, w = 0.2, phiP = 0.2, phiG = 0.1,
                problem = zero_fn, minBound = [5], maxBound = [10],
                dim = 1, initPos = None, Particles = [],
                globBestFit = 0, globBestPos = 0, heap = (\<lambda>a. []), nextAddr = 0,
                rng = draws, rcur = 0\<rparr>"
    using c by (simp add: PSO_init_def)
  have f0: "dim s0 = 1" "w s0 = 0.2" "minBound s0 = [5]" "maxBound s0 = [10]"
    using cfg by (simp_all add: same_config_def s)
  from initPart_first[OF i] obtain sa p0 where
    f: "init_part s (Particle (dim s)) = Inr (sa, p0)" "Particles s0 ! 0 = p0"
      "heap s0 (pos p0) = heap sa (pos p0)"
      "list_all (\<lambda>p. \<not> fitness p < fitness p0) (Particles s0) \<longrightarrow>
        globBestFit s0 = fitness p0 \<and> globBestPos s0 = pos p0"
    by blast
  from f(1) have p0: "heap sa (pos p0) = [5 / 2]" "vel p0 = [15 / 4]" "fitness p0 = 0"
    "bestPos p0 = pos p0"
    by (auto simp: s init_part_def init_pos_def random_n_def random_1_def alloc_def np_bop_def
        np_scal_def Particle_def draws_def zero_fn_def Let_def)
  have "list_all (\<lambda>p. \<not> fitness p < fitness p0) (Particles s0)"
    using initPart_props(3)[OF i] p0(3) by (simp add: list_all_iff s zero_fn_def)
  with f(4) have g0: "globBestPos s0 = pos p0" by simp
  have j: "0 < length (Particles s0)" and d: "0 < dim s0"
    and b: "minBound s0 ! 0 \<le> maxBound s0 ! 0"
    using n f0 by simp_all
  from positions_clamped[OF inv j d b] obtain s1 sj psj where
    u: "update s0 = Inr s1" and
    x: "heap s1 (pos (Particles s1 ! 0)) ! 0 =
       (let y = heap s0 (pos (Particles s0 ! 0)) ! 0 + vel (Particles s1 ! 0) ! 0
        in if y < minBound s0 ! 0 then minBound s0 ! 0
           else if maxBound s0 ! 0 < y then maxBound s0 ! 0 else y)" and
    a: "update_parts s0 (take 0 (Particles s0)) = Inr (sj, psj)" and
    v: "vel (Particles s1 ! 0) ! 0 =
          w s0 * vel (Particles s0 ! 0) ! 0
          + phiP s0 * rng s0 (rcur s0 + 2 * 0)
              * (heap sj (bestPos (Particles s0 ! 0)) ! 0 - heap sj (pos (Particles s0 ! 0)) ! 0)
          + phiG s0 * rng s0 (rcur s0 + 2 * 0 + 1)
              * (heap sj (globBestPos s0) ! 0 - heap sj (pos (Particles s0 ! 0)) ! 0)"
    by blast
  have sj: "sj = s0" using a by simp
  have v': "vel (Particles s1 ! 0) ! 0 = 3 / 4"
    using v by (simp add: sj f(2) p0 g0 f0)
  have h0: "heap s0 (pos (Particles s0 ! 0)) ! 0 = 5 / 2"
    using f(2,3) p0(1) by simp
  have x': "heap s1 (pos (Particles s1 ! 0)) ! 0 = 5"
    using x unfolding v' h0 by (simp add: f0)
  from c i u f0 h0 v' x' show ?thesis by auto
qed

text \<open>
  C9. Across \<open>update()\<close> calls the global best fitness never goes up: it is no larger
  after a call than before it, and so no larger after any number of calls.
\<close>

theorem globBestFit_nonincreasing:
  "(update s = Inr s1 \<longrightarrow> globBestFit s1 \<le> globBestFit s) \<and>
   (updates k s = Inr s2 \<longrightarrow> globBestFit s2 \<le> globBestFit s)"
  using update_glob_le updates_glob_le by blast

theorem globBestFit_nonincreasing_witness:
  "\<exists>s s0 s1 s2. PSO_init square_fn ([0], [10]) None 10 draws = Inr s \<and>
     initPart s = Inr s0 \<and> update s0 = Inr s1 \<and> updates 3 s0 = Inr s2 \<and>
     globBestFit s1 \<le> globBestFit s0 \<and> globBestFit s2 \<le> globBestFit s0"
proof -
  from constructed_swarm[of "[0]" "[10]" square_fn 10 draws] obtain s s0 where
    c: "PSO_init square_fn ([0], [10]) None 10 draws = Inr s" "initPart s = Inr s0"
    and i: "swarm_inv s0"
    by auto
  from update_good[OF i] obtain s1 where u1: "update s0 = Inr s1" by blast
  from updates_good[OF i, of 3] obtain s2 where u2: "updates 3 s0 = Inr s2" by blast
  from globBestFit_nonincreasing[of s0 s1 3 s2] u1 u2 c show ?thesis by blast
qed

text \<open>
  C10. After \<open>__initPart\<close> every particle's \<open>bestPos\<close> is the very array that is its
  \<open>pos\<close>; \<open>update()\<close> assigns neither name, so this stays. In every \<open>update()\<close> the
  cognitive term \<open>phiP*rP*(bestPos - pos)\<close> is therefore zero in every dimension, and the
  new velocity is \<open>w*v + phiG*rG*(globBestPos - pos)\<close>.
\<close>

theorem best_position_aliases_position:
  "(initPart c = Inr s \<longrightarrow> list_all (\<lambda>p. bestPos p = pos p) (Particles s)) \<and>
   (update s = Inr s' \<longrightarrow>
      map pos (Particles s') = map pos (Particles s) \<and>
      map bestPos (Particles s') = map bestPos (Particles s)) \<and>
   (swarm_inv s \<and> update s = Inr s' \<and> j < length (Particles s) \<and> i < dim s \<longrightarrow>
      (\<exists>sj psj. update_parts s (take j (Particles s)) = Inr (sj, psj) \<and>
         bestPos (Particles s ! j) = pos (Particles s ! j) \<and>
         phiP s * rng s (rcur s + 2 * j)
           * (heap sj (bestPos (Particles s ! j)) ! i - heap sj (pos (Particles s ! j)) ! i) = 0 \<and>
         vel (Particles s' ! j) ! i =
           w s * vel (Particles s ! j) ! i
           + phiG s * rng s (rcur s + 2 * j + 1)
               * (heap sj (globBestPos s) ! i - heap s (pos (Particles s ! j)) ! i)))"
proof (intro conjI impI)
  assume "initPart c = Inr s"
  from initPart_props(3)[OF this] show "list_all (\<lambda>p. bestPos p = pos p) (Particles s)"
    by (simp add: list_all_iff)
next
  assume "update s = Inr s'"
  then show "map pos (Particles s') = map pos (Particles s)"
    and "map bestPos (Particles s') = map bestPos (Particles s)"
    by (rule update_aliases)+
next
  assume h: "swarm_inv s \<and> update s = Inr s' \<and> j < length (Particles s) \<and> i < dim s"
  then have a: "swarm_inv s" "update s = Inr s'" "j < length (Particles s)" "i < dim s"
    by simp_all
  from update_nth[OF a(1,2,3)] a(4) show
    "\<exists>sj psj. update_parts s (take j (Particles s)) = Inr (sj, psj) \<and>
         bestPos (Particles s ! j) = pos (Particles s ! j) \<and>
         phiP s * rng s (rcur s + 2 * j)
           * (heap sj (bestPos (Particles s ! j)) ! i - heap sj (pos (Particles s ! j)) ! i) = 0 \<and>
         vel (Particles s' ! j) ! i =
           w s * vel (Particles s ! j) ! i
           + phiG s * rng s (rcur s + 2 * j + 1)
               * (heap sj (globBestPos s) ! i - heap s (pos (Particles s ! j)) ! i)"
    by auto
qed

theorem best_position_aliases_position_witness:
  "\<exists>s s0 s1 sj psj. PSO_init square_fn ([0], [10]) None 10 draws = Inr s \<and>
     initPart s = Inr s0 \<and> update s0 = Inr s1 \<and>
     list_all (\<lambda>p. bestPos p = pos p) (Particles s0) \<and>
     map bestPos (Particles s1) = map bestPos (Particles s0) \<and>
     map pos (Particles s1) = map pos (Particles s0) \<and>
     update_parts s0 (take 7 (Particles s0)) = Inr (sj, psj) \<and>
     vel (Particles s1 ! 7) ! 0 =
       w s0 * vel (Particles s0 ! 7) ! 0
       + phiG s0 * rng s0 (rcur s0 + 2 * 7 + 1)
           * (heap sj (globBestPos s0) ! 0 - heap s0 (pos (Particles s0 ! 7)) ! 0)"
proof -
  from constructed_swarm[of "[0]" "[10]" square_fn 10 draws] obtain s s0 where
    c: "PSO_init square_fn ([0], [10]) None 10 draws = Inr s" "initPart s = Inr s0"
    and i: "swarm_inv s0" and cfg: "same_config s s0" and n: "length (Particles s0) = 100"
    by auto
  have d: "dim s0 = 1" using cfg PSO_init_fields(10)[OF c(1)] by (simp add: same_config_def)
  from update_good[OF i] obtain s1 where u: "update s0 = Inr s1" by blast
  from best_position_aliases_position[of s s0 s1 7 0] n d c u i show ?thesis by auto
qed

end
